theory Spec2Isabelle
  imports Complex_Main
begin

section \<open>Settlement records and the outside world\<close>

text \<open>
  The settlement service of \<^verbatim>\<open>backend/src/blockchain/settlement.service.ts\<close> and the
  gateway \<^verbatim>\<open>SorobanService\<close> are embedded as state-passing functions over a
  \<open>world\<close>: the settlements table, the fault schedules of the store and of the RPC
  server, the clock, and the trace of everything the code did to the outside, in order.
  A rejected promise is the value \<open>Inl e\<close>.
\<close>

datatype SettlementStatus = PENDING | CONFIRMED | FAILED

text \<open>
  The \<^verbatim>\<open>Settlement\<close> entity, with the columns the service reads and writes. The
  primary key \<open>id'\<close> is generated by the store on insertion; \<open>txHash\<close> is
  \<open>None\<close> while the column is unset. Amounts are taken to be integral.
\<close>

record Settlement =
  id' :: "nat option"
  referenceId :: string
  betId :: string
  outcome :: string
  amount :: int
  status :: SettlementStatus
  txHash :: "string option"

datatype error = TypeError | RpcError | StoreError

datatype level = Info | Warn | Error

text \<open>
  What the code does to the outside. \<open>InvokeContract\<close> marks an entry into the gateway
  method; \<open>GetAccount\<close>, \<open>PrepareTransaction\<close> and \<open>SendTransaction\<close> are the requests
  of the RPC client (\<^verbatim>\<open>rpc.Server\<close>), of which only the last one submits to the chain.
\<close>

datatype event =
    Log level
  | FindOne string
  | Find SettlementStatus
  | Saved Settlement
  | SaveFailed Settlement
  | InvokeContract string "string list"
  | GetAccount string
  | PrepareTransaction
  | SendTransaction

text \<open>
  \<open>uniqueReferenceId\<close> says whether the entity declares \<open>referenceId\<close> unique (the
  entity file is not part of the sources, so both cases are kept). A \<open>True\<close> at the
  head of \<open>store_faults\<close> (resp. \<open>rpc_faults\<close>) makes the next store request (resp.
  RPC request) throw; an empty schedule means no fault. \<open>now\<close> is what
  \<^verbatim>\<open>Date.now()\<close> returns when it is read. \<open>trace\<close> grows at its end.
\<close>

record world =
  rows :: "Settlement list"
  uniqueReferenceId :: bool
  store_faults :: "bool list"
  rpc_faults :: "bool list"
  now :: int
  trace :: "event list"

text \<open>
  The fields of \<^verbatim>\<open>SorobanService\<close>. \<open>server\<close> and \<open>adminKeypair\<close> stay undefined
  (\<open>None\<close>) when \<^verbatim>\<open>initializeClient\<close> finds the configuration incomplete.
\<close>

record SorobanService =
  server :: "string option"
  networkPassphrase :: string
  contractId :: string
  adminKeypair :: "string option"

definition emit :: "event \<Rightarrow> world \<Rightarrow> world" where
  "emit e w = w\<lparr>trace := trace w @ [e]\<rparr>"

subsection \<open>Numbers as strings\<close>

definition digit :: "nat \<Rightarrow> char" where
  "digit n = ''0123456789'' ! (n mod 10)"

function decimal :: "nat \<Rightarrow> string" where
  "decimal n = (if n < 10 then [digit n] else decimal (n div 10) @ [digit n])"
  by pat_completeness auto
termination
  by (relation "measure (\<lambda>n. n)") auto

declare decimal.simps [simp del]

text \<open>\<^verbatim>\<open>Number.prototype.toString\<close> on an integral number.\<close>

definition toString :: "int \<Rightarrow> string" where
  "toString i = (if i < 0 then CHR ''-'' # decimal (nat (- i)) else decimal (nat i))"

subsection \<open>The repository\<close>

text \<open>
  Every request consumes the head of its fault schedule; \<open>next_fault\<close> reads it.
\<close>

definition next_fault :: "bool list \<Rightarrow> bool" where
  "next_fault fs = (case fs of [] \<Rightarrow> False | f # _ \<Rightarrow> f)"

definition store_request :: "world \<Rightarrow> bool \<times> world" where
  "store_request w = (next_fault (store_faults w), w\<lparr>store_faults := tl (store_faults w)\<rparr>)"

definition rpc_request :: "world \<Rightarrow> bool \<times> world" where
  "rpc_request w = (next_fault (rpc_faults w), w\<lparr>rpc_faults := tl (rpc_faults w)\<rparr>)"

text \<open>\<^verbatim>\<open>findOne({ where: { referenceId } })\<close>: the first matching row, or null.\<close>

definition findOne :: "string \<Rightarrow> world \<Rightarrow> (error + Settlement option) \<times> world" where
  "findOne ref w =
     (let (fault, w1) = store_request (emit (FindOne ref) w) in
      if fault then (Inl StoreError, w1)
      else (Inr (find (\<lambda>r. referenceId r = ref) (rows w1)), w1))"

text \<open>\<^verbatim>\<open>find({ where: { status } })\<close>: all rows in that status.\<close>

definition find_where :: "SettlementStatus \<Rightarrow> world \<Rightarrow> (error + Settlement list) \<times> world" where
  "find_where st w =
     (let (fault, w1) = store_request (emit (Find st) w) in
      if fault then (Inl StoreError, w1)
      else (Inr (filter (\<lambda>r. status r = st) (rows w1)), w1))"

text \<open>\<^verbatim>\<open>create(dto)\<close> builds the entity in memory; nothing is stored.\<close>

definition create :: "string \<Rightarrow> string \<Rightarrow> string \<Rightarrow> int \<Rightarrow> SettlementStatus \<Rightarrow> Settlement" where
  "create ref b out a st =
     \<lparr>id' = None, referenceId = ref, betId = b, outcome = out, amount = a,
      status = st, txHash = None\<rparr>"

definition fresh_id :: "Settlement list \<Rightarrow> nat" where
  "fresh_id rs = Suc (foldr max (map (\<lambda>r. case id' r of None \<Rightarrow> 0 | Some i \<Rightarrow> i) rs) 0)"

definition update_row :: "Settlement \<Rightarrow> Settlement list \<Rightarrow> Settlement list" where
  "update_row s rs = map (\<lambda>r. if id' r = id' s then s else r) rs"

definition stored :: "Settlement \<Rightarrow> Settlement list \<Rightarrow> bool" where
  "stored s rs = (id' s \<noteq> None \<and> list_ex (\<lambda>r. id' r = id' s) rs)"

text \<open>
  \<^verbatim>\<open>save(entity)\<close>: an entity whose id names a stored row overwrites that row; any
  other entity is inserted, with a generated id when it has none, and the insertion is
  refused when it would repeat a unique \<open>referenceId\<close>. The entity is mutated in place
  to carry its id, so the model returns the entity as it is after the call.
\<close>

definition save :: "Settlement \<Rightarrow> world \<Rightarrow> (error + Settlement) \<times> world" where
  "save s w =
     (let (fault, w1) = store_request w in
      if fault then (Inl StoreError, emit (SaveFailed s) w1)
      else if stored s (rows w1) then
        (Inr s, emit (Saved s) (w1\<lparr>rows := update_row s (rows w1)\<rparr>))
      else if uniqueReferenceId w1 \<and> list_ex (\<lambda>r. referenceId r = referenceId s) (rows w1) then
        (Inl StoreError, emit (SaveFailed s) w1)
      else
        (let s' = (case id' s of None \<Rightarrow> s\<lparr>id' := Some (fresh_id (rows w1))\<rparr> | Some _ \<Rightarrow> s)
         in (Inr s', emit (Saved s') (w1\<lparr>rows := rows w1 @ [s']\<rparr>))))"

section \<open>The gateway: \<^verbatim>\<open>SorobanService.invokeContract\<close>\<close>

text \<open>
  The body of the \<^verbatim>\<open>try\<close> block: the account lookup throws a \<^verbatim>\<open>TypeError\<close> when
  \<open>server\<close> or \<open>adminKeypair\<close> is undefined and an RPC error when the request fails;
  otherwise the method returns \<^verbatim>\<open>'mock_tx_hash_' + Date.now()\<close>.
\<close>

definition invokeContract_try :: "SorobanService \<Rightarrow> world \<Rightarrow> (error + string) \<times> world" where
  "invokeContract_try svc w =
     (case server svc of
        None \<Rightarrow> (Inl TypeError, w)
      | Some url \<Rightarrow>
          (case adminKeypair svc of
             None \<Rightarrow> (Inl TypeError, w)
           | Some pk \<Rightarrow>
               (let (fault, w1) = rpc_request (emit (GetAccount pk) w) in
                if fault then (Inl RpcError, w1)
                else (Inr (''mock_tx_hash_'' @ toString (now w1)), emit (Log Info) w1))))"

definition invokeContract ::
  "SorobanService \<Rightarrow> string \<Rightarrow> string list \<Rightarrow> world \<Rightarrow> (error + string) \<times> world" where
  "invokeContract svc functionName args w =
     (case invokeContract_try svc (emit (Log Info) (emit (InvokeContract functionName args) w)) of
        (Inr h, w1) \<Rightarrow> (Inr h, w1)
      | (Inl e, w1) \<Rightarrow> (Inl e, emit (Log Error) w1))"

section \<open>\<^verbatim>\<open>SettlementService.settleBet\<close>\<close>

text \<open>The \<^verbatim>\<open>catch\<close> block: mark the entity failed, save it, rethrow.\<close>

definition settleBet_catch :: "error \<Rightarrow> Settlement \<Rightarrow> world \<Rightarrow> (error + Settlement) \<times> world" where
  "settleBet_catch e settlement w =
     (case save (settlement\<lparr>status := FAILED\<rparr>) (emit (Log Error) w) of
        (Inl e', w1) \<Rightarrow> (Inl e', w1)
      | (Inr _, w1) \<Rightarrow> (Inl e, w1))"

text \<open>Steps 2 to 4: create the record, submit, attach the hash.\<close>

definition settleBet_submit ::
  "SorobanService \<Rightarrow> string \<Rightarrow> string \<Rightarrow> string \<Rightarrow> int \<Rightarrow> world \<Rightarrow> (error + Settlement) \<times> world" where
  "settleBet_submit svc ref b out a w =
     (case save (create ref b out a PENDING) w of
        (Inl e, w1) \<Rightarrow> (Inl e, w1)
      | (Inr settlement, w1) \<Rightarrow>
          (case invokeContract svc ''settle'' [b, out, toString a] w1 of
             (Inl e, w2) \<Rightarrow> settleBet_catch e settlement w2
           | (Inr h, w2) \<Rightarrow>
               (let settlement' = settlement\<lparr>txHash := Some h\<rparr> in
                case save settlement' (emit (Log Info) w2) of
                  (Inl e, w3) \<Rightarrow> settleBet_catch e settlement' w3
                | (Inr s, w3) \<Rightarrow> (Inr s, w3))))"

definition settleBet ::
  "SorobanService \<Rightarrow> string \<Rightarrow> string \<Rightarrow> int \<Rightarrow> world \<Rightarrow> (error + Settlement) \<times> world" where
  "settleBet svc b out a w =
     (let ref = ''settle_'' @ b in
      case findOne ref (emit (Log Info) w) of
        (Inl e, w1) \<Rightarrow> (Inl e, w1)
      | (Inr None, w1) \<Rightarrow> settleBet_submit svc ref b out a w1
      | (Inr (Some existing), w1) \<Rightarrow>
          if status existing = CONFIRMED then (Inr existing, emit (Log Warn) w1)
          else if status existing = PENDING then (Inr existing, emit (Log Warn) w1)
          else settleBet_submit svc ref b out a w1)"

section \<open>\<^verbatim>\<open>SettlementService.reconcile\<close>\<close>

text \<open>\<^verbatim>\<open>!settlement.txHash\<close>: undefined, null and the empty string are all falsy.\<close>

definition no_txHash :: "Settlement \<Rightarrow> bool" where
  "no_txHash s = (case txHash s of None \<Rightarrow> True | Some h \<Rightarrow> h = [])"

text \<open>
  The loop over the pending settlements. The save of a record without hash stands
  outside the \<^verbatim>\<open>try\<close> block, so its failure leaves the loop; the save of a record
  with a hash stands inside, so its failure is logged and the loop goes on.
\<close>

fun reconcile_loop :: "Settlement list \<Rightarrow> world \<Rightarrow> (error + unit) \<times> world" where
  "reconcile_loop [] w = (Inr (), w)"
| "reconcile_loop (settlement # rest) w =
     (if no_txHash settlement then
        (case save (settlement\<lparr>status := FAILED\<rparr>) (emit (Log Warn) w) of
           (Inl e, w1) \<Rightarrow> (Inl e, w1)
         | (Inr _, w1) \<Rightarrow> reconcile_loop rest w1)
      else
        (case save (settlement\<lparr>status := CONFIRMED\<rparr>) (emit (Log Info) w) of
           (Inl e, w1) \<Rightarrow> reconcile_loop rest (emit (Log Error) w1)
         | (Inr _, w1) \<Rightarrow> reconcile_loop rest (emit (Log Info) w1)))"

definition reconcile :: "world \<Rightarrow> (error + unit) \<times> world" where
  "reconcile w =
     (case find_where PENDING (emit (Log Info) w) of
        (Inl e, w1) \<Rightarrow> (Inl e, w1)
      | (Inr pendingSettlements, w1) \<Rightarrow> reconcile_loop pendingSettlements w1)"

section \<open>Vocabulary of the properties\<close>

text \<open>The store raises no fault for the rest of the schedule.\<close>

definition healthy :: "world \<Rightarrow> bool" where
  "healthy w = (True \<notin> set (store_faults w))"

text \<open>The primary key: every stored row has an id, and no two rows share one.\<close>

definition wf_rows :: "Settlement list \<Rightarrow> bool" where
  "wf_rows rs = (distinct (map id' rs) \<and> None \<notin> set (map id' rs))"

text \<open>What one pass of the sweep does to a row, when every write is accepted.\<close>

definition sweep :: "Settlement \<Rightarrow> Settlement" where
  "sweep r =
     (if status r \<noteq> PENDING then r
      else if no_txHash r then r\<lparr>status := FAILED\<rparr>
      else r\<lparr>status := CONFIRMED\<rparr>)"

text \<open>The record of a fresh attempt as the first write stores it.\<close>

definition pending_record :: "string \<Rightarrow> string \<Rightarrow> int \<Rightarrow> world \<Rightarrow> Settlement" where
  "pending_record b out a w =
     (create (''settle_'' @ b) b out a PENDING)\<lparr>id' := Some (fresh_id (rows w))\<rparr>"

text \<open>The row a lookup by primary key returns.\<close>

definition row_of :: "nat option \<Rightarrow> Settlement list \<Rightarrow> Settlement option" where
  "row_of i rs = find (\<lambda>r. id' r = i) rs"

fun is_invoke :: "event \<Rightarrow> bool" where
  "is_invoke (InvokeContract f args) = True"
| "is_invoke e = False"

fun is_rpc :: "event \<Rightarrow> bool" where
  "is_rpc (GetAccount pk) = True"
| "is_rpc PrepareTransaction = True"
| "is_rpc SendTransaction = True"
| "is_rpc e = False"

fun is_submit :: "event \<Rightarrow> bool" where
  "is_submit SendTransaction = True"
| "is_submit e = False"

text \<open>
  How often the gateway method was entered, how many requests reached the RPC server,
  and how many of them submitted a transaction.
\<close>

definition gateway_calls :: "event list \<Rightarrow> nat" where
  "gateway_calls tr = length (filter is_invoke tr)"

definition rpc_requests :: "event list \<Rightarrow> nat" where
  "rpc_requests tr = length (filter is_rpc tr)"

definition submissions :: "event list \<Rightarrow> nat" where
  "submissions tr = length (filter is_submit tr)"

fun confirms_without_hash :: "event \<Rightarrow> bool" where
  "confirms_without_hash (Saved s) = (status s = CONFIRMED \<and> no_txHash s)"
| "confirms_without_hash (SaveFailed s) = (status s = CONFIRMED \<and> no_txHash s)"
| "confirms_without_hash e = False"

text \<open>How many writes, accepted or refused, marked a record without hash confirmed.\<close>

definition hashless_confirms :: "event list \<Rightarrow> nat" where
  "hashless_confirms tr = length (filter confirms_without_hash tr)"

subsection \<open>Concrete worlds\<close>

definition demo_service :: SorobanService where
  "demo_service =
     \<lparr>server = Some ''https://mock-rpc'', networkPassphrase = ''secret'',
      contractId = ''C_MOCK'', adminKeypair = Some ''MOCK_PUBLIC_KEY''\<rparr>"

definition empty_world :: world where
  "empty_world =
     \<lparr>rows = [], uniqueReferenceId = False, store_faults = [], rpc_faults = [],
      now = 42, trace = []\<rparr>"

definition world_with :: "Settlement list \<Rightarrow> world" where
  "world_with rs = empty_world\<lparr>rows := rs\<rparr>"

text \<open>A submitted settlement awaiting confirmation, and one that never got a hash.\<close>

definition submitted :: Settlement where
  "submitted =
     \<lparr>id' = Some 1, referenceId = ''settle_bet123'', betId = ''bet123'', outcome = ''WIN'',
      amount = 100, status = PENDING, txHash = Some ''mock_tx_hash_42''\<rparr>"

definition crashed :: Settlement where
  "crashed =
     \<lparr>id' = Some 2, referenceId = ''settle_bet456'', betId = ''bet456'', outcome = ''LOSS'',
      amount = 50, status = PENDING, txHash = None\<rparr>"

definition submitted_later :: Settlement where
  "submitted_later =
     \<lparr>id' = Some 3, referenceId = ''settle_bet789'', betId = ''bet789'', outcome = ''WIN'',
      amount = 7, status = PENDING, txHash = Some ''mock_tx_hash_43''\<rparr>"

text \<open>
  A table with both kinds of pending record, the same table while the RPC server cannot
  be reached, and a table whose only record is a failed attempt for \<^verbatim>\<open>bet123\<close>.
\<close>

definition sweep_world :: world where
  "sweep_world = world_with [submitted, crashed]"

definition unreachable_world :: world where
  "unreachable_world = sweep_world\<lparr>rpc_faults := [True]\<rparr>"

definition failed_world :: world where
  "failed_world = world_with [submitted\<lparr>status := FAILED, txHash := None\<rparr>]"

section \<open>Leaderboard statistics\<close>

text \<open>
  Modelled from the spec: the \<open>LeaderboardStats\<close> row of section 3. The leaderboard
  entity and \<^verbatim>\<open>leaderboard.service.ts\<close> are not among the sources; only their
  description in \<^verbatim>\<open>LEADERBOARD_IMPLEMENTATION.md\<close> is. Counters are natural numbers,
  amounts and the accuracy are rationals, timestamps are integers.
\<close>

record LeaderboardStats =
  userId :: string
  totalBets :: nat
  betsWon :: nat
  betsLost :: nat
  totalWinnings :: rat
  bettingAccuracy :: rat
  winningStreak :: nat
  highestWinningStreak :: nat
  totalStaked :: rat
  totalStakingRewards :: rat
  activeStakes :: rat
  lastBetAt :: "int option"
  lastStakeAt :: "int option"

text \<open>
  Modelled from the spec: the \<open>BetSettled\<close> variant of the event envelope (the event
  classes are not among the sources), with its fields in the order of section 3.
\<close>

datatype BetSettled =
  BetSettled (settledUser: string) (settledBet: string) (matchId: string) (isWin: bool)
    (stakeAmount: rat) (winningsAmount: rat) (timestamp: int)

text \<open>
  Modelled from the spec: the row created lazily on the first event of an unseen user,
  with all counters zeroed (\<^verbatim>\<open>ensureLeaderboardExists\<close> is not among the sources).
\<close>

definition newStats :: "string \<Rightarrow> LeaderboardStats" where
  "newStats u =
     \<lparr>userId = u, totalBets = 0, betsWon = 0, betsLost = 0, totalWinnings = 0,
      bettingAccuracy = 0, winningStreak = 0, highestWinningStreak = 0, totalStaked = 0,
      totalStakingRewards = 0, activeStakes = 0, lastBetAt = None, lastStakeAt = None\<rparr>"

text \<open>
  Modelled from the spec: \<open>round(x, 2)\<close>, rounding to two decimal places (the entity's
  rounding is not among the sources; halves are rounded up).
\<close>

definition round2 :: "rat \<Rightarrow> rat" where
  "round2 x = of_int (round (x * 100)) / 100"

text \<open>
  Modelled from the spec: the accuracy recomputed from the counters, with the division
  guarded against \<open>totalBets = 0\<close> (the entity method is not among the sources).
\<close>

definition recalculateAccuracy :: "LeaderboardStats \<Rightarrow> LeaderboardStats" where
  "recalculateAccuracy s =
     s\<lparr>bettingAccuracy :=
         (if totalBets s > 0 then round2 (of_nat (betsWon s) / of_nat (totalBets s) * 100)
          else 0)\<rparr>"

text \<open>
  Modelled from the spec: a win increments the streak and raises the highest streak to
  the maximum of both, a loss resets the streak (the entity method is not among the
  sources).
\<close>

definition updateWinningStreak :: "bool \<Rightarrow> LeaderboardStats \<Rightarrow> LeaderboardStats" where
  "updateWinningStreak win s =
     (if win then
        s\<lparr>winningStreak := winningStreak s + 1,
          highestWinningStreak := max (highestWinningStreak s) (winningStreak s + 1)\<rparr>
      else s\<lparr>winningStreak := 0\<rparr>)"

text \<open>
  Modelled from the spec: the \<open>BetSettled\<close> case of \<open>apply\<close> in section 4.1
  (\<^verbatim>\<open>handleBetSettled\<close> of the missing service): increment \<open>totalBets\<close>, then
  \<open>betsWon\<close> or \<open>betsLost\<close>, add the winnings of a win, update the streak, recompute
  the accuracy.
\<close>

definition handleBetSettled :: "BetSettled \<Rightarrow> LeaderboardStats \<Rightarrow> LeaderboardStats" where
  "handleBetSettled ev s =
     (let s1 = s\<lparr>totalBets := totalBets s + 1\<rparr>;
          s2 = (if isWin ev then
                  s1\<lparr>betsWon := betsWon s1 + 1,
                     totalWinnings := totalWinnings s1 + winningsAmount ev\<rparr>
                else s1\<lparr>betsLost := betsLost s1 + 1\<rparr>)
      in recalculateAccuracy (updateWinningStreak (isWin ev) s2))"

text \<open>
  Modelled from the spec: the row of a user after a sequence of settlement events was
  applied to it, first event first, starting from the lazily created row.
\<close>

definition settled :: "string \<Rightarrow> BetSettled list \<Rightarrow> LeaderboardStats" where
  "settled u evs = foldl (\<lambda>s ev. handleBetSettled ev s) (newStats u) evs"

section \<open>Basic facts\<close>

lemma no_fault_next: "True \<notin> set fs \<Longrightarrow> \<not> next_fault fs"
  by (cases fs) (auto simp: next_fault_def)

lemma no_fault_tl: "True \<notin> set fs \<Longrightarrow> True \<notin> set (tl fs)"
  by (cases fs) auto

lemma healthy_next: "healthy w \<Longrightarrow> \<not> next_fault (store_faults w)"
  by (simp add: healthy_def no_fault_next)

lemma healthy_emit [simp]: "healthy (emit e w) = healthy w"
  by (simp add: healthy_def emit_def)

lemma fresh_id_upper: "r \<in> set rs \<Longrightarrow> id' r = Some i \<Longrightarrow> i < fresh_id rs"
  by (induction rs) (auto simp: fresh_id_def)

lemma fresh_id_new: "r \<in> set rs \<Longrightarrow> id' r \<noteq> Some (fresh_id rs)"
  using fresh_id_upper [of r rs "fresh_id rs"] by auto

lemma not_stored_fresh: "\<not> list_ex (\<lambda>r. id' r = Some (fresh_id rs)) rs"
  using fresh_id_new by (auto simp: list_ex_iff)

lemma update_row_fresh:
  "id' s = Some (fresh_id rs) \<Longrightarrow> id' p = Some (fresh_id rs) \<Longrightarrow>
   update_row s (rs @ [p]) = rs @ [s]"
  using fresh_id_new [of _ rs] by (auto simp: update_row_def map_idI)

lemma find_None_ex: "find P xs = None \<Longrightarrow> \<not> list_ex P xs"
  by (simp add: find_None_iff list_ex_iff)

subsection \<open>Counting events\<close>

lemma gateway_calls_append [simp]:
  "gateway_calls (xs @ ys) = gateway_calls xs + gateway_calls ys"
  by (simp add: gateway_calls_def)

lemma gateway_calls_Nil [simp]: "gateway_calls [] = 0"
  by (simp add: gateway_calls_def)

lemma gateway_calls_Cons [simp]:
  "gateway_calls (e # tr) = (if is_invoke e then 1 else 0) + gateway_calls tr"
  by (simp add: gateway_calls_def)

lemma rpc_requests_append [simp]:
  "rpc_requests (xs @ ys) = rpc_requests xs + rpc_requests ys"
  by (simp add: rpc_requests_def)

lemma rpc_requests_Nil [simp]: "rpc_requests [] = 0"
  by (simp add: rpc_requests_def)

lemma rpc_requests_Cons [simp]:
  "rpc_requests (e # tr) = (if is_rpc e then 1 else 0) + rpc_requests tr"
  by (simp add: rpc_requests_def)

lemma submissions_append [simp]:
  "submissions (xs @ ys) = submissions xs + submissions ys"
  by (simp add: submissions_def)

lemma submissions_Nil [simp]: "submissions [] = 0"
  by (simp add: submissions_def)

lemma submissions_Cons [simp]:
  "submissions (e # tr) = (if is_submit e then 1 else 0) + submissions tr"
  by (simp add: submissions_def)

subsection \<open>The gateway\<close>

lemma invokeContract_ok:
  "server svc = Some url \<Longrightarrow> adminKeypair svc = Some pk \<Longrightarrow> \<not> next_fault (rpc_faults w) \<Longrightarrow>
   invokeContract svc f args w =
     (Inr (''mock_tx_hash_'' @ toString (now w)),
      w\<lparr>rpc_faults := tl (rpc_faults w),
        trace := trace w @ [InvokeContract f args, Log Info, GetAccount pk, Log Info]\<rparr>)"
  by (simp add: invokeContract_def invokeContract_try_def rpc_request_def emit_def)

lemma invokeContract_try_submissions:
  "submissions (trace (snd (invokeContract_try svc w))) = submissions (trace w)"
  by (simp add: invokeContract_try_def rpc_request_def emit_def split: option.splits)

lemma invokeContract_submissions:
  "submissions (trace (snd (invokeContract svc f args w))) = submissions (trace w)"
  using invokeContract_try_submissions [of svc "emit (Log Info) (emit (InvokeContract f args) w)"]
  by (auto simp add: invokeContract_def emit_def split: prod.splits sum.splits)

lemma invokeContract_result:
  "invokeContract svc f args w = (Inr h, w') \<Longrightarrow> h = ''mock_tx_hash_'' @ toString (now w)"
  by (auto simp add: invokeContract_def invokeContract_try_def rpc_request_def emit_def
      split: option.splits if_splits)

subsection \<open>Frame and event counts of the store operations\<close>

lemma save_frame:
  "now (snd (save s w)) = now w"
  "rpc_faults (snd (save s w)) = rpc_faults w"
  "uniqueReferenceId (snd (save s w)) = uniqueReferenceId w"
  "store_faults (snd (save s w)) = tl (store_faults w)"
  by (simp_all add: save_def store_request_def emit_def Let_def split: option.splits)

lemma save_events:
  "submissions (trace (snd (save s w))) = submissions (trace w)"
  "gateway_calls (trace (snd (save s w))) = gateway_calls (trace w)"
  "rpc_requests (trace (snd (save s w))) = rpc_requests (trace w)"
  by (simp_all add: save_def store_request_def emit_def Let_def split: option.splits)

lemma save_txHash: "save s w = (Inr s', w') \<Longrightarrow> txHash s' = txHash s \<and> status s' = status s"
  by (auto simp: save_def store_request_def emit_def Let_def split: option.splits if_splits)

lemma findOne_frame:
  "now (snd (findOne ref w)) = now w"
  "rpc_faults (snd (findOne ref w)) = rpc_faults w"
  "rows (snd (findOne ref w)) = rows w"
  "uniqueReferenceId (snd (findOne ref w)) = uniqueReferenceId w"
  "store_faults (snd (findOne ref w)) = tl (store_faults w)"
  "trace (snd (findOne ref w)) = trace w @ [FindOne ref]"
  by (simp_all add: findOne_def store_request_def emit_def Let_def)

lemma settleBet_catch_events:
  "submissions (trace (snd (settleBet_catch e s w))) = submissions (trace w)"
  "gateway_calls (trace (snd (settleBet_catch e s w))) = gateway_calls (trace w)"
  using save_events [of "s\<lparr>status := FAILED\<rparr>" "emit (Log Error) w"]
  by (auto simp: settleBet_catch_def emit_def split: prod.splits sum.splits)

lemma settleBet_submit_submissions:
  "submissions (trace (snd (settleBet_submit svc ref b out a w))) = submissions (trace w)"
proof -
  obtain r1 w1 where s1: "save (create ref b out a PENDING) w = (r1, w1)"
    by (cases "save (create ref b out a PENDING) w")
  have t1: "submissions (trace w1) = submissions (trace w)"
    using save_events(1) [of "create ref b out a PENDING" w] s1 by simp
  show ?thesis
  proof (cases r1)
    case (Inl e)
    then show ?thesis using s1 t1 by (simp add: settleBet_submit_def)
  next
    case (Inr settlement)
    obtain r2 w2 where s2: "invokeContract svc ''settle'' [b, out, toString a] w1 = (r2, w2)"
      by (cases "invokeContract svc ''settle'' [b, out, toString a] w1")
    have t2: "submissions (trace w2) = submissions (trace w)"
      using invokeContract_submissions [of svc "''settle''" "[b, out, toString a]" w1] s2 t1 by simp
    show ?thesis
    proof (cases r2)
      case (Inl e)
      then show ?thesis using s1 Inr s2 t2
        by (simp add: settleBet_submit_def settleBet_catch_events)
    next
      case h: (Inr h)
      obtain r3 w3 where s3: "save (settlement\<lparr>txHash := Some h\<rparr>) (emit (Log Info) w2) = (r3, w3)"
        by (cases "save (settlement\<lparr>txHash := Some h\<rparr>) (emit (Log Info) w2)")
      have t3: "submissions (trace w3) = submissions (trace w)"
        using save_events(1) [of "settlement\<lparr>txHash := Some h\<rparr>" "emit (Log Info) w2"] s3 t2
        by (simp add: emit_def)
      show ?thesis using s1 Inr s2 h s3 t3
        by (cases r3) (simp_all add: settleBet_submit_def settleBet_catch_events)
    qed
  qed
qed

lemma settleBet_submit_hash:
  assumes "fst (settleBet_submit svc ref b out a w) = Inr r"
  shows "txHash r = Some (''mock_tx_hash_'' @ toString (now w)) \<and> status r = PENDING"
proof -
  obtain r1 w1 where s1: "save (create ref b out a PENDING) w = (r1, w1)"
    by (cases "save (create ref b out a PENDING) w")
  have n1: "now w1 = now w" using save_frame(1) [of "create ref b out a PENDING" w] s1 by simp
  show ?thesis
  proof (cases r1)
    case (Inl e)
    then show ?thesis using s1 assms by (simp add: settleBet_submit_def)
  next
    case (Inr settlement)
    have p: "status settlement = PENDING"
      using save_txHash [of "create ref b out a PENDING" w settlement w1] s1 Inr
      by (simp add: create_def)
    obtain r2 w2 where s2: "invokeContract svc ''settle'' [b, out, toString a] w1 = (r2, w2)"
      by (cases "invokeContract svc ''settle'' [b, out, toString a] w1")
    show ?thesis
    proof (cases r2)
      case (Inl e)
      then show ?thesis using s1 Inr s2 assms
        by (auto simp: settleBet_submit_def settleBet_catch_def split: prod.splits sum.splits)
    next
      case h: (Inr h)
      have hh: "h = ''mock_tx_hash_'' @ toString (now w)"
        using invokeContract_result [of svc "''settle''" "[b, out, toString a]" w1 h w2] s2 h n1
        by simp
      obtain r3 w3 where s3: "save (settlement\<lparr>txHash := Some h\<rparr>) (emit (Log Info) w2) = (r3, w3)"
        by (cases "save (settlement\<lparr>txHash := Some h\<rparr>) (emit (Log Info) w2)")
      show ?thesis
      proof (cases r3)
        case (Inl e)
        then show ?thesis using s1 Inr s2 h s3 assms
          by (auto simp: settleBet_submit_def settleBet_catch_def split: prod.splits sum.splits)
      next
        case r: (Inr s)
        have "r = s" using s1 Inr s2 h s3 r assms by (simp add: settleBet_submit_def)
        moreover have "txHash s = Some h \<and> status s = PENDING"
          using save_txHash [of "settlement\<lparr>txHash := Some h\<rparr>" "emit (Log Info) w2" s w3] s3 r p
          by simp
        ultimately show ?thesis using hh by simp
      qed
    qed
  qed
qed

subsection \<open>The sweep, when the store is healthy\<close>

lemma save_healthy: "healthy w \<Longrightarrow> healthy (snd (save s w))"
  using no_fault_tl [of "store_faults w"]
  by (auto simp: save_def store_request_def emit_def healthy_def Let_def split: option.splits)

lemma save_update:
  "healthy w \<Longrightarrow> stored s (rows w) \<Longrightarrow>
   fst (save s w) = Inr s \<and> rows (snd (save s w)) = update_row s (rows w)"
  using healthy_next [of w]
  by (simp add: save_def store_request_def emit_def)

lemma map_id_update_row: "map id' (update_row s rs) = map id' rs"
  by (induction rs) (auto simp: update_row_def)

lemma stored_iff: "stored s rs \<longleftrightarrow> id' s \<noteq> None \<and> id' s \<in> set (map id' rs)"
  by (force simp: stored_def list_ex_iff)

lemma reconcile_loop_rows:
  "healthy w \<Longrightarrow> \<forall>s\<in>set ss. status s = PENDING \<and> id' s \<noteq> None \<and> id' s \<in> set (map id' (rows w)) \<Longrightarrow>
   fst (reconcile_loop ss w) = Inr () \<and>
   rows (snd (reconcile_loop ss w)) = foldl (\<lambda>rs s. update_row (sweep s) rs) (rows w) ss"
proof (induction ss arbitrary: w)
  case Nil
  then show ?case by simp
next
  case (Cons s ss)
  let ?s' = "sweep s"
  let ?l = "if no_txHash s then Log Warn else Log Info"
  have st: "stored ?s' (rows (emit ?l w))"
    using Cons.prems(2) by (simp add: stored_iff sweep_def emit_def)
  have h: "healthy (emit ?l w)" using Cons.prems(1) by simp
  obtain res w1 where sv: "save ?s' (emit ?l w) = (res, w1)" by (cases "save ?s' (emit ?l w)")
  have res: "res = Inr ?s'" and rows1: "rows w1 = update_row ?s' (rows w)"
    using save_update [OF h st] sv by (simp_all add: emit_def)
  have h1: "healthy w1" using save_healthy [OF h, of ?s'] sv by simp
  have ids: "\<forall>t\<in>set ss. status t = PENDING \<and> id' t \<noteq> None \<and> id' t \<in> set (map id' (rows w1))"
    using Cons.prems(2) by (simp add: rows1 map_id_update_row)
  have ids': "\<forall>t\<in>set ss. status t = PENDING \<and> id' t \<noteq> None \<and> id' t \<in> set (map id' (rows (emit (Log Info) w1)))"
    using ids by (simp add: emit_def)
  show ?case
  proof (cases "no_txHash s")
    case True
    then have "reconcile_loop (s # ss) w = reconcile_loop ss w1"
      using sv res Cons.prems(2) by (simp add: sweep_def)
    then show ?thesis using Cons.IH [OF h1 ids] by (simp add: rows1)
  next
    case False
    then have "reconcile_loop (s # ss) w = reconcile_loop ss (emit (Log Info) w1)"
      using sv res Cons.prems(2) by (simp add: sweep_def)
    moreover have "healthy (emit (Log Info) w1)" using h1 by simp
    moreover have "rows (emit (Log Info) w1) = rows w1" by (simp add: emit_def)
    ultimately show ?thesis using Cons.IH [of "emit (Log Info) w1"] ids'
      by (simp add: rows1)
  qed
qed

lemma find_id_None: "id' r \<notin> set (map id' ss) \<Longrightarrow> find (\<lambda>s. id' s = id' r) ss = None"
  by (induction ss) auto

lemma foldl_update_row:
  "distinct (map id' ss) \<Longrightarrow> \<forall>s. id' (f s) = id' s \<Longrightarrow>
   foldl (\<lambda>rs s. update_row (f s) rs) rs ss =
   map (\<lambda>r. case find (\<lambda>s. id' s = id' r) ss of None \<Rightarrow> r | Some s \<Rightarrow> f s) rs"
proof (induction ss arbitrary: rs)
  case Nil
  then show ?case by simp
next
  case (Cons s ss)
  have "foldl (\<lambda>rs s. update_row (f s) rs) rs (s # ss) =
        foldl (\<lambda>rs s. update_row (f s) rs) (update_row (f s) rs) ss" by simp
  also have "\<dots> = map (\<lambda>r. case find (\<lambda>s. id' s = id' r) ss of None \<Rightarrow> r | Some s \<Rightarrow> f s)
                      (update_row (f s) rs)"
    using Cons by simp
  also have "\<dots> = map (\<lambda>r. case find (\<lambda>s. id' s = id' r) (s # ss) of None \<Rightarrow> r | Some s \<Rightarrow> f s) rs"
    using Cons.prems find_id_None [of s ss]
    by (auto simp: update_row_def)
  finally show ?case .
qed

lemma find_filter_id:
  "distinct (map id' rs) \<Longrightarrow> r \<in> set rs \<Longrightarrow>
   find (\<lambda>s. id' s = id' r) (filter P rs) = (if P r then Some r else None)"
proof (induction rs)
  case Nil
  then show ?case by simp
next
  case (Cons x rs)
  show ?case
  proof (cases "r = x")
    case True
    with Cons.prems have "id' r \<notin> set (map id' (filter P rs))" by auto
    with True show ?thesis by (simp add: find_id_None)
  next
    case False
    with Cons.prems have "id' x \<noteq> id' r" by (auto simp: image_iff)
    with Cons False show ?thesis by auto
  qed
qed

lemma find_where_ok:
  "healthy w \<Longrightarrow> find_where st w =
     (Inr (filter (\<lambda>r. status r = st) (rows w)),
      w\<lparr>store_faults := tl (store_faults w), trace := trace w @ [Find st]\<rparr>)"
  using healthy_next [of w]
  by (simp add: find_where_def store_request_def emit_def)

lemma reconcile_rows:
  assumes "healthy w" and "wf_rows (rows w)"
  shows "fst (reconcile w) = Inr () \<and> rows (snd (reconcile w)) = map sweep (rows w)"
proof -
  let ?ps = "filter (\<lambda>r. status r = PENDING) (rows w)"
  let ?w1 = "w\<lparr>store_faults := tl (store_faults w), trace := trace w @ [Log Info, Find PENDING]\<rparr>"
  have h0: "healthy (emit (Log Info) w)" using assms(1) by simp
  have fw: "find_where PENDING (emit (Log Info) w) = (Inr ?ps, ?w1)"
    using find_where_ok [OF h0] by (simp add: emit_def)
  have rec: "reconcile w = reconcile_loop ?ps ?w1"
    by (simp add: reconcile_def fw)
  have h1: "healthy ?w1" using no_fault_tl [of "store_faults w"] assms(1) by (simp add: healthy_def)
  have ids: "\<forall>s\<in>set ?ps. status s = PENDING \<and> id' s \<noteq> None \<and> id' s \<in> set (map id' (rows ?w1))"
    using assms(2) by (force simp: wf_rows_def)
  have d: "distinct (map id' ?ps)"
    using assms(2) by (simp add: wf_rows_def distinct_map_filter)
  have sw: "\<forall>s. id' (sweep s) = id' s" by (simp add: sweep_def)
  have "rows (snd (reconcile w)) = foldl (\<lambda>rs s. update_row (sweep s) rs) (rows w) ?ps"
    using reconcile_loop_rows [OF h1 ids] rec by simp
  also have "\<dots> = map (\<lambda>r. case find (\<lambda>s. id' s = id' r) ?ps of None \<Rightarrow> r | Some s \<Rightarrow> sweep s) (rows w)"
    by (rule foldl_update_row [OF d sw])
  also have "\<dots> = map sweep (rows w)"
  proof (rule map_cong [OF refl])
    fix r assume "r \<in> set (rows w)"
    then have "find (\<lambda>s. id' s = id' r) ?ps = (if status r = PENDING then Some r else None)"
      using assms(2) by (simp add: find_filter_id wf_rows_def)
    then show "(case find (\<lambda>s. id' s = id' r) ?ps of None \<Rightarrow> r | Some s \<Rightarrow> sweep s) = sweep r"
      by (simp add: sweep_def)
  qed
  finally show ?thesis using reconcile_loop_rows [OF h1 ids] rec by simp
qed

subsection \<open>Paths of \<^verbatim>\<open>settleBet\<close>\<close>

lemma settleBet_existing:
  assumes "\<not> next_fault (store_faults w)"
    and "find (\<lambda>r. referenceId r = ''settle_'' @ b) (rows w) = Some existing"
    and "status existing = CONFIRMED \<or> status existing = PENDING"
  shows "settleBet svc b out a w =
     (Inr existing,
      w\<lparr>store_faults := tl (store_faults w),
        trace := trace w @ [Log Info, FindOne (''settle_'' @ b), Log Warn]\<rparr>)"
  using assms by (auto simp: settleBet_def findOne_def store_request_def emit_def Let_def)

lemma settleBet_fresh_ok:
  assumes "healthy w"
    and "find (\<lambda>r. referenceId r = ''settle_'' @ b) (rows w) = None"
    and "server svc = Some url" and "adminKeypair svc = Some pk" and "\<not> next_fault (rpc_faults w)"
  shows "settleBet svc b out a w =
     (Inr ((pending_record b out a w)\<lparr>txHash := Some (''mock_tx_hash_'' @ toString (now w))\<rparr>),
      w\<lparr>rows := rows w @ [(pending_record b out a w)\<lparr>txHash := Some (''mock_tx_hash_'' @ toString (now w))\<rparr>],
        store_faults := tl (tl (tl (store_faults w))),
        rpc_faults := tl (rpc_faults w),
        trace := trace w @
          [Log Info, FindOne (''settle_'' @ b), Saved (pending_record b out a w),
           InvokeContract ''settle'' [b, out, toString a], Log Info, GetAccount pk, Log Info,
           Log Info,
           Saved ((pending_record b out a w)\<lparr>txHash := Some (''mock_tx_hash_'' @ toString (now w))\<rparr>)]\<rparr>)"
proof -
  have f: "\<not> next_fault (store_faults w)" "\<not> next_fault (tl (store_faults w))"
    "\<not> next_fault (tl (tl (store_faults w)))"
    using assms(1) by (simp_all add: healthy_def no_fault_next no_fault_tl)
  have n: "\<not> list_ex (\<lambda>r. referenceId r = ''settle_'' @ b) (rows w)"
    using assms(2) by (rule find_None_ex)
  show ?thesis
    using f n assms(2-5) not_stored_fresh [of "rows w"]
    by (simp add: settleBet_def findOne_def store_request_def emit_def settleBet_submit_def
        save_def create_def stored_def invokeContract_def invokeContract_try_def rpc_request_def
        pending_record_def update_row_fresh Let_def)
qed

text \<open>The first write and the entry into the gateway, whatever happens afterwards.\<close>

lemma save_trace: "\<exists>evs. trace (snd (save s w)) = trace w @ evs"
  by (simp add: save_def store_request_def emit_def Let_def split: option.splits)

lemma settleBet_catch_trace: "\<exists>evs. trace (snd (settleBet_catch e s w)) = trace w @ evs"
proof -
  obtain evs where "trace (snd (save (s\<lparr>status := FAILED\<rparr>) (emit (Log Error) w))) =
      trace (emit (Log Error) w) @ evs"
    using save_trace by blast
  then show ?thesis
    by (auto simp: settleBet_catch_def emit_def split: prod.splits sum.splits)
qed

lemma invokeContract_trace:
  "\<exists>evs. trace (snd (invokeContract svc f args w)) = trace w @ InvokeContract f args # evs"
  by (simp add: invokeContract_def invokeContract_try_def rpc_request_def emit_def
      split: option.splits)

lemma settleBet_fresh_trace:
  assumes "healthy w"
    and "find (\<lambda>r. referenceId r = ''settle_'' @ b) (rows w) = None"
  shows "\<exists>rest. trace (snd (settleBet svc b out a w)) =
     trace w @ [Log Info, FindOne (''settle_'' @ b), Saved (pending_record b out a w),
                InvokeContract ''settle'' [b, out, toString a]] @ rest"
proof -
  let ?ref = "''settle_'' @ b"
  let ?p = "pending_record b out a w"
  let ?w1 = "w\<lparr>store_faults := tl (tl (store_faults w)), rows := rows w @ [?p],
               trace := trace w @ [Log Info, FindOne ?ref, Saved ?p]\<rparr>"
  have f: "\<not> next_fault (store_faults w)" "\<not> next_fault (tl (store_faults w))"
    using assms(1) by (simp_all add: healthy_def no_fault_next no_fault_tl)
  have n: "\<not> list_ex (\<lambda>r. referenceId r = ?ref) (rows w)"
    using assms(2) by (rule find_None_ex)
  have step: "settleBet svc b out a w =
      (case invokeContract svc ''settle'' [b, out, toString a] ?w1 of
         (Inl e, w2) \<Rightarrow> settleBet_catch e ?p w2
       | (Inr h, w2) \<Rightarrow>
           (case save (?p\<lparr>txHash := Some h\<rparr>) (emit (Log Info) w2) of
              (Inl e, w3) \<Rightarrow> settleBet_catch e (?p\<lparr>txHash := Some h\<rparr>) w3
            | (Inr s, w3) \<Rightarrow> (Inr s, w3)))"
    using f n assms(2)
    by (simp add: settleBet_def findOne_def store_request_def emit_def settleBet_submit_def
        save_def create_def stored_def pending_record_def Let_def split: prod.splits sum.splits)
  obtain r2 w2 where s2: "invokeContract svc ''settle'' [b, out, toString a] ?w1 = (r2, w2)"
    by (cases "invokeContract svc ''settle'' [b, out, toString a] ?w1")
  obtain ev2 where t2: "trace w2 = trace ?w1 @ InvokeContract ''settle'' [b, out, toString a] # ev2"
    using invokeContract_trace [of svc "''settle''" "[b, out, toString a]" ?w1] s2 by auto
  show ?thesis
  proof (cases r2)
    case (Inl e)
    obtain ev3 where "trace (snd (settleBet_catch e ?p w2)) = trace w2 @ ev3"
      using settleBet_catch_trace by blast
    then show ?thesis using step s2 Inl t2 by simp
  next
    case h: (Inr h)
    obtain r3 w3 where s3: "save (?p\<lparr>txHash := Some h\<rparr>) (emit (Log Info) w2) = (r3, w3)"
      by (cases "save (?p\<lparr>txHash := Some h\<rparr>) (emit (Log Info) w2)")
    obtain ev3 where t3: "trace w3 = trace (emit (Log Info) w2) @ ev3"
      using save_trace [of "?p\<lparr>txHash := Some h\<rparr>" "emit (Log Info) w2"] s3 by auto
    show ?thesis
    proof (cases r3)
      case (Inl e)
      obtain ev4 where "trace (snd (settleBet_catch e (?p\<lparr>txHash := Some h\<rparr>) w3)) = trace w3 @ ev4"
        using settleBet_catch_trace by blast
      then show ?thesis using step s2 h s3 Inl t2 t3 by (simp add: emit_def)
    next
      case (Inr s)
      then show ?thesis using step s2 h s3 t2 t3 by (simp add: emit_def)
    qed
  qed
qed

lemma invokeContract_fst:
  "fst (invokeContract svc f args w) =
     (if server svc = None \<or> adminKeypair svc = None then Inl TypeError
      else if next_fault (rpc_faults w) then Inl RpcError
      else Inr (''mock_tx_hash_'' @ toString (now w)))"
  by (auto simp: invokeContract_def invokeContract_try_def rpc_request_def emit_def
      split: option.splits)

lemma invokeContract_frame:
  "rows (snd (invokeContract svc f args w)) = rows w"
  "store_faults (snd (invokeContract svc f args w)) = store_faults w"
  "uniqueReferenceId (snd (invokeContract svc f args w)) = uniqueReferenceId w"
  "now (snd (invokeContract svc f args w)) = now w"
  by (auto simp: invokeContract_def invokeContract_try_def rpc_request_def emit_def
      split: option.splits)

lemma settleBet_gateway_throws:
  assumes "healthy w"
    and "find (\<lambda>r. referenceId r = ''settle_'' @ b) (rows w) = None"
    and "fst (invokeContract svc ''settle'' [b, out, toString a] w) = Inl e"
  shows "fst (settleBet svc b out a w) = Inl e \<and>
     rows (snd (settleBet svc b out a w)) = rows w @ [(pending_record b out a w)\<lparr>status := FAILED\<rparr>]"
proof -
  let ?ref = "''settle_'' @ b"
  let ?p = "pending_record b out a w"
  let ?w1 = "w\<lparr>store_faults := tl (tl (store_faults w)), rows := rows w @ [?p],
               trace := trace w @ [Log Info, FindOne ?ref, Saved ?p]\<rparr>"
  have f: "\<not> next_fault (store_faults w)" "\<not> next_fault (tl (store_faults w))"
    "\<not> next_fault (tl (tl (store_faults w)))"
    using assms(1) by (simp_all add: healthy_def no_fault_next no_fault_tl)
  have n: "\<not> list_ex (\<lambda>r. referenceId r = ?ref) (rows w)"
    using assms(2) by (rule find_None_ex)
  obtain r2 w2 where s2: "invokeContract svc ''settle'' [b, out, toString a] ?w1 = (r2, w2)"
    by (cases "invokeContract svc ''settle'' [b, out, toString a] ?w1")
  have "fst (invokeContract svc ''settle'' [b, out, toString a] ?w1) =
        fst (invokeContract svc ''settle'' [b, out, toString a] w)"
    by (simp add: invokeContract_fst)
  then have r2: "r2 = Inl e" using s2 assms(3) by simp
  have fr: "rows w2 = rows w @ [?p]" "store_faults w2 = tl (tl (store_faults w))"
    using invokeContract_frame(1,2) [of svc "''settle''" "[b, out, toString a]" ?w1] s2 by simp_all
  have step: "settleBet svc b out a w = settleBet_catch e ?p w2"
    using f n assms(2) s2 r2
    by (simp add: settleBet_def findOne_def store_request_def emit_def settleBet_submit_def
        save_def create_def stored_def pending_record_def Let_def)
  have st: "stored (?p\<lparr>status := FAILED\<rparr>) (rows w2)"
    by (simp add: fr stored_def pending_record_def)
  have "save (?p\<lparr>status := FAILED\<rparr>) (emit (Log Error) w2) =
      (Inr (?p\<lparr>status := FAILED\<rparr>),
       emit (Saved (?p\<lparr>status := FAILED\<rparr>))
         ((emit (Log Error) w2)\<lparr>store_faults := tl (store_faults w2),
            rows := update_row (?p\<lparr>status := FAILED\<rparr>) (rows w2)\<rparr>))"
    using st f(3) fr by (simp add: save_def store_request_def emit_def)
  moreover have "update_row (?p\<lparr>status := FAILED\<rparr>) (rows w2) = rows w @ [?p\<lparr>status := FAILED\<rparr>]"
    unfolding fr by (rule update_row_fresh) (simp_all add: pending_record_def)
  ultimately show ?thesis
    using step by (simp add: settleBet_catch_def emit_def)
qed

subsection \<open>The sweep, whatever the store does\<close>

lemma reconcile_loop_gateway:
  "gateway_calls (trace (snd (reconcile_loop ss w))) = gateway_calls (trace w) \<and>
   rpc_requests (trace (snd (reconcile_loop ss w))) = rpc_requests (trace w) \<and>
   rpc_faults (snd (reconcile_loop ss w)) = rpc_faults w"
proof (induction ss arbitrary: w)
  case Nil
  then show ?case by simp
next
  case (Cons s ss)
  let ?s' = "if no_txHash s then s\<lparr>status := FAILED\<rparr> else s\<lparr>status := CONFIRMED\<rparr>"
  let ?w0 = "emit (if no_txHash s then Log Warn else Log Info) w"
  obtain r1 w1 where sv: "save ?s' ?w0 = (r1, w1)" by (cases "save ?s' ?w0")
  have e1: "gateway_calls (trace w1) = gateway_calls (trace w)"
    "rpc_requests (trace w1) = rpc_requests (trace w)" "rpc_faults w1 = rpc_faults w"
    using save_events(2,3) [of ?s' ?w0] save_frame(2) [of ?s' ?w0] sv
    by (simp_all add: emit_def)
  show ?case
  proof (cases "no_txHash s")
    case True
    then show ?thesis using sv e1 Cons.IH [of w1] by (cases r1) simp_all
  next
    case False
    then show ?thesis
      using sv e1 Cons.IH [of "emit (Log Error) w1"] Cons.IH [of "emit (Log Info) w1"]
      by (cases r1) (simp_all add: emit_def)
  qed
qed

lemma find_where_frame:
  "trace (snd (find_where st w)) = trace w @ [Find st]"
  "rpc_faults (snd (find_where st w)) = rpc_faults w"
  "rows (snd (find_where st w)) = rows w"
  by (simp_all add: find_where_def store_request_def emit_def)

lemma reconcile_gateway:
  "gateway_calls (trace (snd (reconcile w))) = gateway_calls (trace w) \<and>
   rpc_requests (trace (snd (reconcile w))) = rpc_requests (trace w) \<and>
   rpc_faults (snd (reconcile w)) = rpc_faults w"
proof -
  obtain r1 w1 where fw: "find_where PENDING (emit (Log Info) w) = (r1, w1)"
    by (cases "find_where PENDING (emit (Log Info) w)")
  have t1: "trace w1 = trace w @ [Log Info, Find PENDING]" "rpc_faults w1 = rpc_faults w"
    using find_where_frame(1,2) [of PENDING "emit (Log Info) w"] fw by (simp_all add: emit_def)
  show ?thesis
  proof (cases r1)
    case (Inl e)
    then show ?thesis using fw t1 by (simp add: reconcile_def)
  next
    case (Inr ps)
    then show ?thesis using fw t1 reconcile_loop_gateway [of ps w1] by (simp add: reconcile_def)
  qed
qed

lemma hashless_confirms_append [simp]:
  "hashless_confirms (xs @ ys) = hashless_confirms xs + hashless_confirms ys"
  by (simp add: hashless_confirms_def)

lemma hashless_confirms_Nil [simp]: "hashless_confirms [] = 0"
  by (simp add: hashless_confirms_def)

lemma hashless_confirms_Cons [simp]:
  "hashless_confirms (e # tr) = (if confirms_without_hash e then 1 else 0) + hashless_confirms tr"
  by (simp add: hashless_confirms_def)

lemma save_hashless:
  "\<not> (status s = CONFIRMED \<and> no_txHash s) \<Longrightarrow>
   hashless_confirms (trace (snd (save s w))) = hashless_confirms (trace w)"
  by (auto simp: save_def store_request_def emit_def Let_def no_txHash_def
      split: option.splits)

lemma reconcile_loop_hashless:
  "hashless_confirms (trace (snd (reconcile_loop ss w))) = hashless_confirms (trace w)"
proof (induction ss arbitrary: w)
  case Nil
  then show ?case by simp
next
  case (Cons s ss)
  let ?s' = "if no_txHash s then s\<lparr>status := FAILED\<rparr> else s\<lparr>status := CONFIRMED\<rparr>"
  let ?w0 = "emit (if no_txHash s then Log Warn else Log Info) w"
  obtain r1 w1 where sv: "save ?s' ?w0 = (r1, w1)" by (cases "save ?s' ?w0")
  have "\<not> (status ?s' = CONFIRMED \<and> no_txHash ?s')" by (simp add: no_txHash_def)
  then have "hashless_confirms (trace (snd (save ?s' ?w0))) = hashless_confirms (trace ?w0)"
    by (rule save_hashless)
  then have e1: "hashless_confirms (trace w1) = hashless_confirms (trace w)"
    using sv by (simp add: emit_def)
  show ?case
  proof (cases "no_txHash s")
    case True
    then show ?thesis using sv e1 Cons.IH [of w1] by (cases r1) simp_all
  next
    case False
    then show ?thesis
      using sv e1 Cons.IH [of "emit (Log Error) w1"] Cons.IH [of "emit (Log Info) w1"]
      by (cases r1) (simp_all add: emit_def)
  qed
qed

lemma reconcile_hashless:
  "hashless_confirms (trace (snd (reconcile w))) = hashless_confirms (trace w)"
proof -
  obtain r1 w1 where fw: "find_where PENDING (emit (Log Info) w) = (r1, w1)"
    by (cases "find_where PENDING (emit (Log Info) w)")
  have t1: "trace w1 = trace w @ [Log Info, Find PENDING]"
    using find_where_frame(1) [of PENDING "emit (Log Info) w"] fw by (simp_all add: emit_def)
  show ?thesis
  proof (cases r1)
    case (Inl e)
    then show ?thesis using fw t1 by (simp add: reconcile_def)
  next
    case (Inr ps)
    then show ?thesis using fw t1 reconcile_loop_hashless [of ps w1]
      by (simp add: reconcile_def)
  qed
qed

lemma row_of_map:
  "distinct (map id' rs) \<Longrightarrow> r \<in> set rs \<Longrightarrow> \<forall>x. id' (f x) = id' x \<Longrightarrow>
   row_of (id' r) (map f rs) = Some (f r)"
proof (induction rs)
  case Nil
  then show ?case by simp
next
  case (Cons x rs)
  show ?case
  proof (cases "r = x")
    case True
    with Cons.prems show ?thesis by (simp add: row_of_def)
  next
    case False
    with Cons.prems have "id' x \<noteq> id' r" by (auto simp: image_iff)
    with Cons False show ?thesis by (simp add: row_of_def)
  qed
qed

subsection \<open>A fresh attempt that returns\<close>

lemma invokeContract_gateway_calls:
  "gateway_calls (trace (snd (invokeContract svc f args w))) = gateway_calls (trace w) + 1"
  by (simp add: invokeContract_def invokeContract_try_def rpc_request_def emit_def
      split: option.splits)

lemma settleBet_submit_gateway_calls:
  assumes "fst (settleBet_submit svc ref b out a w) = Inr r"
  shows "gateway_calls (trace (snd (settleBet_submit svc ref b out a w))) = gateway_calls (trace w) + 1"
proof -
  obtain r1 w1 where s1: "save (create ref b out a PENDING) w = (r1, w1)"
    by (cases "save (create ref b out a PENDING) w")
  have t1: "gateway_calls (trace w1) = gateway_calls (trace w)"
    using save_events(2) [of "create ref b out a PENDING" w] s1 by simp
  show ?thesis
  proof (cases r1)
    case (Inl e)
    then show ?thesis using s1 assms by (simp add: settleBet_submit_def)
  next
    case (Inr settlement)
    obtain r2 w2 where s2: "invokeContract svc ''settle'' [b, out, toString a] w1 = (r2, w2)"
      by (cases "invokeContract svc ''settle'' [b, out, toString a] w1")
    have t2: "gateway_calls (trace w2) = gateway_calls (trace w) + 1"
      using invokeContract_gateway_calls [of svc "''settle''" "[b, out, toString a]" w1] s2 t1
      by simp
    show ?thesis
    proof (cases r2)
      case (Inl e)
      then show ?thesis using s1 Inr s2 t2
        by (simp add: settleBet_submit_def settleBet_catch_events)
    next
      case h: (Inr h)
      obtain r3 w3 where s3: "save (settlement\<lparr>txHash := Some h\<rparr>) (emit (Log Info) w2) = (r3, w3)"
        by (cases "save (settlement\<lparr>txHash := Some h\<rparr>) (emit (Log Info) w2)")
      have t3: "gateway_calls (trace w3) = gateway_calls (trace w) + 1"
        using save_events(2) [of "settlement\<lparr>txHash := Some h\<rparr>" "emit (Log Info) w2"] s3 t2
        by (simp add: emit_def)
      show ?thesis using s1 Inr s2 h s3 t3
        by (cases r3) (simp_all add: settleBet_submit_def settleBet_catch_events)
    qed
  qed
qed

lemma settleBet_fresh_returns:
  assumes "fst (settleBet svc b out a w) = Inr r"
    and "find (\<lambda>r. referenceId r = ''settle_'' @ b) (rows w) = None"
  shows "status r = PENDING \<and>
     gateway_calls (trace (snd (settleBet svc b out a w))) = gateway_calls (trace w) + 1"
proof -
  let ?ref = "''settle_'' @ b"
  let ?w1 = "w\<lparr>trace := trace w @ [Log Info, FindOne ?ref], store_faults := tl (store_faults w)\<rparr>"
  have nf: "\<not> next_fault (store_faults w)"
    using assms(1) by (auto simp: settleBet_def findOne_def store_request_def emit_def Let_def)
  have step: "settleBet svc b out a w = settleBet_submit svc ?ref b out a ?w1"
    using nf assms(2) by (simp add: settleBet_def findOne_def store_request_def emit_def Let_def)
  have r: "fst (settleBet_submit svc ?ref b out a ?w1) = Inr r"
    using assms(1) step by simp
  show ?thesis
    using settleBet_submit_hash [OF r] settleBet_submit_gateway_calls [OF r] step by simp
qed

subsection \<open>A gateway failure is never swallowed\<close>

lemma settleBet_catch_throws: "\<exists>e'. fst (settleBet_catch e s w) = Inl e'"
  by (auto simp: settleBet_catch_def split: prod.splits sum.splits)

lemma settleBet_submit_throws:
  assumes "fst (invokeContract svc ''settle'' [b, out, toString a] w) = Inl e"
  shows "\<exists>e'. fst (settleBet_submit svc ref b out a w) = Inl e'"
proof -
  obtain r1 w1 where s1: "save (create ref b out a PENDING) w = (r1, w1)"
    by (cases "save (create ref b out a PENDING) w")
  have fr: "rpc_faults w1 = rpc_faults w" "now w1 = now w"
    using save_frame(1,2) [of "create ref b out a PENDING" w] s1 by simp_all
  show ?thesis
  proof (cases r1)
    case (Inl e1)
    then show ?thesis using s1 by (simp add: settleBet_submit_def)
  next
    case (Inr settlement)
    obtain r2 w2 where s2: "invokeContract svc ''settle'' [b, out, toString a] w1 = (r2, w2)"
      by (cases "invokeContract svc ''settle'' [b, out, toString a] w1")
    have "fst (invokeContract svc ''settle'' [b, out, toString a] w1) =
          fst (invokeContract svc ''settle'' [b, out, toString a] w)"
      by (simp add: invokeContract_fst fr)
    then have "r2 = Inl e" using s2 assms by simp
    then show ?thesis
      using s1 Inr s2 settleBet_catch_throws [of e settlement w2]
      by (simp add: settleBet_submit_def)
  qed
qed

lemma settleBet_throws:
  assumes "fst (invokeContract svc ''settle'' [b, out, toString a] w) = Inl e"
    and "find (\<lambda>r. referenceId r = ''settle_'' @ b) (rows w) = None"
  shows "\<exists>e'. fst (settleBet svc b out a w) = Inl e'"
proof -
  let ?ref = "''settle_'' @ b"
  obtain r0 w0 where f0: "findOne ?ref (emit (Log Info) w) = (r0, w0)"
    by (cases "findOne ?ref (emit (Log Info) w)")
  have fr: "rpc_faults w0 = rpc_faults w" "now w0 = now w"
    using findOne_frame(1,2) [of ?ref "emit (Log Info) w"] f0 by (simp_all add: emit_def)
  show ?thesis
  proof (cases r0)
    case (Inl e0)
    then show ?thesis using f0 by (simp add: settleBet_def)
  next
    case (Inr found)
    have "found = None"
      using f0 Inr assms(2)
      by (auto simp: findOne_def store_request_def emit_def Let_def split: if_splits)
    moreover have "fst (invokeContract svc ''settle'' [b, out, toString a] w0) =
        fst (invokeContract svc ''settle'' [b, out, toString a] w)"
      by (simp add: invokeContract_fst fr)
    then have "fst (invokeContract svc ''settle'' [b, out, toString a] w0) = Inl e"
      using assms(1) by simp
    ultimately show ?thesis
      using f0 Inr settleBet_submit_throws [of svc b out a w0 e ?ref]
      by (simp add: settleBet_def)
  qed
qed

subsection \<open>The primary key is kept by every write\<close>

text \<open>
  \<open>wf_rows\<close> holds of the empty table and is kept by \<^verbatim>\<open>save\<close>, hence by
  \<^verbatim>\<open>settleBet\<close> and \<^verbatim>\<open>reconcile\<close>: it holds in every world the service can reach.
\<close>

lemma wf_rows_Nil: "wf_rows []"
  by (simp add: wf_rows_def)

lemma save_wf:
  assumes "wf_rows (rows w)"
  shows "wf_rows (rows (snd (save s w)))"
proof -
  have upd: "wf_rows (update_row s (rows w))"
    using assms by (simp add: wf_rows_def map_id_update_row)
  have ins: "wf_rows (rows w @ [s])" if "id' s \<noteq> None" and "\<not> stored s (rows w)"
    using assms that by (auto simp: wf_rows_def stored_iff)
  have "Some (fresh_id (rows w)) \<notin> id' ` set (rows w)"
    using not_stored_fresh [of "rows w"] by (auto simp: list_ex_iff)
  then have new: "wf_rows (rows w @ [s\<lparr>id' := Some (fresh_id (rows w))\<rparr>])"
    using assms by (simp add: wf_rows_def)
  show ?thesis
  proof (cases "id' s")
    case None
    then show ?thesis
      using assms new by (simp add: save_def store_request_def emit_def stored_def Let_def)
  next
    case (Some i)
    then show ?thesis
      using assms upd ins by (simp add: save_def store_request_def emit_def Let_def)
  qed
qed

lemma reconcile_loop_wf: "wf_rows (rows w) \<Longrightarrow> wf_rows (rows (snd (reconcile_loop ss w)))"
proof (induction ss arbitrary: w)
  case Nil
  then show ?case by simp
next
  case (Cons s ss)
  let ?s' = "if no_txHash s then s\<lparr>status := FAILED\<rparr> else s\<lparr>status := CONFIRMED\<rparr>"
  let ?w0 = "emit (if no_txHash s then Log Warn else Log Info) w"
  obtain r1 w1 where sv: "save ?s' ?w0 = (r1, w1)" by (cases "save ?s' ?w0")
  have "wf_rows (rows ?w0)" using Cons.prems by (simp add: emit_def)
  then have w1: "wf_rows (rows w1)" using save_wf [of ?w0 ?s'] sv by simp
  then have w1': "wf_rows (rows (emit e w1))" for e by (simp add: emit_def)
  show ?case
  proof (cases "no_txHash s")
    case True
    then show ?thesis using sv w1 Cons.IH [of w1] Cons.prems
      by (cases r1) (simp_all add: emit_def)
  next
    case False
    then show ?thesis
      using sv Cons.IH [OF w1' [of "Log Error"]] Cons.IH [OF w1' [of "Log Info"]]
      by (cases r1) simp_all
  qed
qed

lemma reconcile_wf: "wf_rows (rows w) \<Longrightarrow> wf_rows (rows (snd (reconcile w)))"
  using reconcile_loop_wf [of "snd (find_where PENDING (emit (Log Info) w))"]
    find_where_frame(3) [of PENDING "emit (Log Info) w"]
  by (auto simp: reconcile_def emit_def split: prod.splits sum.splits)

lemma settleBet_catch_wf: "wf_rows (rows w) \<Longrightarrow> wf_rows (rows (snd (settleBet_catch e s w)))"
  using save_wf [of "emit (Log Error) w" "s\<lparr>status := FAILED\<rparr>"]
  by (auto simp: settleBet_catch_def emit_def split: prod.splits sum.splits)

lemma settleBet_submit_wf:
  assumes "wf_rows (rows w)"
  shows "wf_rows (rows (snd (settleBet_submit svc ref b out a w)))"
proof -
  obtain r1 w1 where s1: "save (create ref b out a PENDING) w = (r1, w1)"
    by (cases "save (create ref b out a PENDING) w")
  have w1: "wf_rows (rows w1)" using save_wf [OF assms, of "create ref b out a PENDING"] s1 by simp
  show ?thesis
  proof (cases r1)
    case (Inl e)
    then show ?thesis using s1 w1 by (simp add: settleBet_submit_def)
  next
    case (Inr settlement)
    obtain r2 w2 where s2: "invokeContract svc ''settle'' [b, out, toString a] w1 = (r2, w2)"
      by (cases "invokeContract svc ''settle'' [b, out, toString a] w1")
    have w2: "wf_rows (rows w2)"
      using invokeContract_frame(1) [of svc "''settle''" "[b, out, toString a]" w1] s2 w1 by simp
    show ?thesis
    proof (cases r2)
      case (Inl e)
      then show ?thesis using s1 Inr s2 settleBet_catch_wf [OF w2]
        by (simp add: settleBet_submit_def)
    next
      case h: (Inr h)
      obtain r3 w3 where s3: "save (settlement\<lparr>txHash := Some h\<rparr>) (emit (Log Info) w2) = (r3, w3)"
        by (cases "save (settlement\<lparr>txHash := Some h\<rparr>) (emit (Log Info) w2)")
      have "wf_rows (rows (emit (Log Info) w2))" using w2 by (simp add: emit_def)
      then have w3: "wf_rows (rows w3)"
        using save_wf [of "emit (Log Info) w2" "settlement\<lparr>txHash := Some h\<rparr>"] s3 by simp
      show ?thesis using s1 Inr s2 h s3 w3 settleBet_catch_wf [OF w3]
        by (cases r3) (simp_all add: settleBet_submit_def)
    qed
  qed
qed

lemma settleBet_wf: "wf_rows (rows w) \<Longrightarrow> wf_rows (rows (snd (settleBet svc b out a w)))"
  using settleBet_submit_wf [of "snd (findOne (''settle_'' @ b) (emit (Log Info) w))" svc
      "''settle_'' @ b" b out a]
    findOne_frame(3) [of "''settle_'' @ b" "emit (Log Info) w"]
  by (auto simp: settleBet_def emit_def Let_def split: prod.splits sum.splits option.splits)

subsection \<open>One row of the sweep\<close>

lemma sweep_id: "\<forall>x. id' (sweep x) = id' x"
  by (simp add: sweep_def)

lemma reconcile_row:
  assumes "healthy w" and "wf_rows (rows w)" and "r \<in> set (rows w)"
  shows "fst (reconcile w) = Inr () \<and> row_of (id' r) (rows (snd (reconcile w))) = Some (sweep r)"
  using reconcile_rows [OF assms(1,2)] row_of_map [of "rows w" r sweep] assms(2,3) sweep_id
  by (simp add: wf_rows_def)

subsection \<open>The concrete worlds, evaluated\<close>

lemma demo_submit:
  "fst (settleBet_submit demo_service ''settle_bet123'' ''bet123'' ''WIN'' 100 empty_world) =
     Inr \<lparr>id' = Some 1, referenceId = ''settle_bet123'', betId = ''bet123'', outcome = ''WIN'',
          amount = 100, status = PENDING, txHash = Some ''mock_tx_hash_42''\<rparr>"
  by code_simp

lemma demo_first: "fst (settleBet demo_service ''bet123'' ''WIN'' 100 empty_world) = Inr submitted"
  by code_simp

lemma demo_between:
  "rows (snd (reconcile (snd (settleBet demo_service ''bet123'' ''WIN'' 100 empty_world)))) =
     [submitted\<lparr>status := CONFIRMED\<rparr>]"
  by code_simp

lemma demo_second:
  "fst (settleBet demo_service ''bet123'' ''WIN'' 100
         (snd (reconcile (snd (settleBet demo_service ''bet123'' ''WIN'' 100 empty_world))))) =
     Inr (submitted\<lparr>status := CONFIRMED\<rparr>)"
  by code_simp

lemma demo_pending_record:
  "pending_record ''bet123'' ''WIN'' 100 empty_world = submitted\<lparr>txHash := None\<rparr>"
  by code_simp

lemma demo_clock: "toString (now empty_world) = ''42''"
  by code_simp

lemma sweep_world_facts:
  "healthy unreachable_world" "wf_rows (rows unreachable_world)"
  "submitted \<in> set (rows unreachable_world)" "status submitted = PENDING" "\<not> no_txHash submitted"
  "crashed \<in> set (rows unreachable_world)" "status crashed = PENDING" "no_txHash crashed"
  by (simp_all add: healthy_def wf_rows_def unreachable_world_def sweep_world_def world_with_def
      empty_world_def submitted_def crashed_def no_txHash_def)

subsection \<open>The settlement handler of the leaderboard\<close>

lemma handleBetSettled_invariant:
  assumes "totalBets s = betsWon s + betsLost s" and "winningStreak s \<le> highestWinningStreak s"
  shows "totalBets (handleBetSettled ev s) =
       betsWon (handleBetSettled ev s) + betsLost (handleBetSettled ev s) \<and>
     winningStreak (handleBetSettled ev s) \<le> highestWinningStreak (handleBetSettled ev s) \<and>
     bettingAccuracy (handleBetSettled ev s) =
       round2 (of_nat (betsWon (handleBetSettled ev s)) /
               of_nat (totalBets (handleBetSettled ev s)) * 100) \<and>
     totalBets (handleBetSettled ev s) > 0"
  using assms
  by (simp add: handleBetSettled_def recalculateAccuracy_def updateWinningStreak_def Let_def)

lemma settled_snoc: "settled u (evs @ [ev]) = handleBetSettled ev (settled u evs)"
  by (simp add: settled_def)

lemma settled_counts:
  "totalBets (settled u evs) = betsWon (settled u evs) + betsLost (settled u evs) \<and>
   winningStreak (settled u evs) \<le> highestWinningStreak (settled u evs)"
proof (induction evs rule: rev_induct)
  case Nil
  then show ?case by (simp add: settled_def newStats_def)
next
  case (snoc ev evs)
  then show ?case using handleBetSettled_invariant [of "settled u evs" ev]
    by (simp add: settled_snoc)
qed

lemma settled_win_then_loss:
  "settled ''U'' [BetSettled ''U'' ''b1'' ''m1'' True 10 50 1, BetSettled ''U'' ''b2'' ''m2'' False 10 0 2]
  = \<lparr>userId = ''U'', totalBets = 2, betsWon = 1, betsLost = 1, totalWinnings = 50,
      bettingAccuracy = 50, winningStreak = 0, highestWinningStreak = 1, totalStaked = 0,
      totalStakingRewards = 0, activeStakes = 0, lastBetAt = None, lastStakeAt = None\<rparr>"
  by code_simp

section \<open>Properties of \<^verbatim>\<open>settleBet\<close>\<close>

text \<open>
  C5. When the store is healthy and no record exists for \<open>settle_<betId>\<close>, the first
  thing \<^verbatim>\<open>settleBet\<close> writes is a new record in status \<open>PENDING\<close> without hash, and
  only then does it enter the gateway, whatever the gateway answers. When the gateway
  succeeds, the handle it returned is put into \<open>txHash\<close> and stored by a second write
  of the same row; the record returned to the caller carries the handle and is still
  \<open>PENDING\<close>.
\<close>

theorem settleBet_fresh_writes_pending_first:
  assumes "healthy w"
    and "find (\<lambda>r. referenceId r = ''settle_'' @ b) (rows w) = None"
  shows "status (pending_record b out a w) = PENDING \<and> txHash (pending_record b out a w) = None \<and>
     (\<exists>rest. trace (snd (settleBet svc b out a w)) =
        trace w @ [Log Info, FindOne (''settle_'' @ b), Saved (pending_record b out a w),
                   InvokeContract ''settle'' [b, out, toString a]] @ rest) \<and>
     (server svc = Some url \<and> adminKeypair svc = Some pk \<and> \<not> next_fault (rpc_faults w) \<longrightarrow>
        settleBet svc b out a w =
          (Inr ((pending_record b out a w)\<lparr>txHash := Some (''mock_tx_hash_'' @ toString (now w))\<rparr>),
           w\<lparr>rows := rows w @ [(pending_record b out a w)\<lparr>txHash := Some (''mock_tx_hash_'' @ toString (now w))\<rparr>],
             store_faults := tl (tl (tl (store_faults w))),
             rpc_faults := tl (rpc_faults w),
             trace := trace w @
               [Log Info, FindOne (''settle_'' @ b), Saved (pending_record b out a w),
                InvokeContract ''settle'' [b, out, toString a], Log Info, GetAccount pk, Log Info,
                Log Info,
                Saved ((pending_record b out a w)\<lparr>txHash := Some (''mock_tx_hash_'' @ toString (now w))\<rparr>)]\<rparr>) \<and>
        status ((pending_record b out a w)\<lparr>txHash := Some (''mock_tx_hash_'' @ toString (now w))\<rparr>) = PENDING)"
proof -
  have p: "status (pending_record b out a w) = PENDING" "txHash (pending_record b out a w) = None"
    by (simp_all add: pending_record_def create_def)
  show ?thesis
    using p settleBet_fresh_trace [OF assms, of svc out a]
      settleBet_fresh_ok [OF assms, of svc url pk out a]
    by simp
qed

theorem settleBet_fresh_writes_pending_first_witness:
  "healthy empty_world \<and>
   find (\<lambda>r. referenceId r = ''settle_'' @ ''bet123'') (rows empty_world) = None \<and>
   server demo_service = Some ''https://mock-rpc'' \<and>
   adminKeypair demo_service = Some ''MOCK_PUBLIC_KEY'' \<and>
   \<not> next_fault (rpc_faults empty_world) \<and>
   settleBet demo_service ''bet123'' ''WIN'' 100 empty_world =
     (Inr submitted,
      empty_world\<lparr>rows := [submitted],
        trace := [Log Info, FindOne ''settle_bet123'', Saved (submitted\<lparr>txHash := None\<rparr>),
                  InvokeContract ''settle'' [''bet123'', ''WIN'', ''100''], Log Info,
                  GetAccount ''MOCK_PUBLIC_KEY'', Log Info, Log Info, Saved submitted]\<rparr>)"
proof -
  have h1: "healthy empty_world" by (simp add: healthy_def empty_world_def)
  have h2: "find (\<lambda>r. referenceId r = ''settle_'' @ ''bet123'') (rows empty_world) = None"
    by (simp add: empty_world_def)
  have h3: "server demo_service = Some ''https://mock-rpc''"
    "adminKeypair demo_service = Some ''MOCK_PUBLIC_KEY''"
    "\<not> next_fault (rpc_faults empty_world)"
    by (simp_all add: demo_service_def empty_world_def next_fault_def)
  have s: "submitted\<lparr>txHash := None, txHash := Some ''mock_tx_hash_42''\<rparr> = submitted"
    by (simp add: submitted_def)
  have a: "toString 100 = ''100''" by code_simp
  have e: "rows empty_world = []" "store_faults empty_world = []" "rpc_faults empty_world = []"
    "trace empty_world = []"
    by (simp_all add: empty_world_def)
  show ?thesis
    using settleBet_fresh_writes_pending_first [OF h1 h2, of "''WIN''" 100 demo_service
        "''https://mock-rpc''" "''MOCK_PUBLIC_KEY''"] h1 h2 h3
    by (simp add: demo_pending_record demo_clock s a e)
qed

text \<open>
  C6. When the lookup finds a record for \<open>settle_<betId>\<close> in status \<open>PENDING\<close>,
  \<^verbatim>\<open>settleBet\<close> returns that very record; the table is left as it was, the gateway is
  not entered and no RPC request is made.
\<close>

theorem settleBet_pending_is_returned:
  assumes "\<not> next_fault (store_faults w)"
    and "find (\<lambda>r. referenceId r = ''settle_'' @ b) (rows w) = Some existing"
    and "status existing = PENDING"
  shows "settleBet svc b out a w =
       (Inr existing,
        w\<lparr>store_faults := tl (store_faults w),
          trace := trace w @ [Log Info, FindOne (''settle_'' @ b), Log Warn]\<rparr>) \<and>
     rows (snd (settleBet svc b out a w)) = rows w \<and>
     gateway_calls (trace (snd (settleBet svc b out a w))) = gateway_calls (trace w) \<and>
     rpc_requests (trace (snd (settleBet svc b out a w))) = rpc_requests (trace w)"
  using settleBet_existing [OF assms(1,2), of svc out a] assms(3) by simp

theorem settleBet_pending_is_returned_witness:
  "\<not> next_fault (store_faults (world_with [submitted])) \<and>
   find (\<lambda>r. referenceId r = ''settle_'' @ ''bet123'') (rows (world_with [submitted])) = Some submitted \<and>
   status submitted = PENDING \<and>
   settleBet demo_service ''bet123'' ''WIN'' 100 (world_with [submitted]) =
     (Inr submitted,
      (world_with [submitted])\<lparr>trace := [Log Info, FindOne ''settle_bet123'', Log Warn]\<rparr>) \<and>
   gateway_calls (trace (snd (settleBet demo_service ''bet123'' ''WIN'' 100 (world_with [submitted])))) = 0"
proof -
  have h1: "\<not> next_fault (store_faults (world_with [submitted]))"
    by (simp add: world_with_def empty_world_def next_fault_def)
  have h2: "find (\<lambda>r. referenceId r = ''settle_'' @ ''bet123'') (rows (world_with [submitted])) =
      Some submitted"
    by (simp add: world_with_def submitted_def)
  have h3: "status submitted = PENDING" by (simp add: submitted_def)
  have e: "store_faults (world_with [submitted]) = []" "trace (world_with [submitted]) = []"
    by (simp_all add: world_with_def empty_world_def)
  show ?thesis
    using settleBet_pending_is_returned [OF h1 h2 h3, of demo_service "''WIN''" 100] h1 h2 h3
    by (simp add: e)
qed

text \<open>
  C7. Take a fresh attempt (no record exists for \<open>settle_<betId>\<close>) in which the gateway
  call throws \<open>e\<close>; what the gateway answers depends on the service, the RPC fault
  schedule and the clock only, none of which a store request touches. Then
  \<^verbatim>\<open>settleBet\<close> never returns normally, whatever the store does. When the store is
  healthy it rethrows that same \<open>e\<close>, and the row it had just inserted is stored with
  status \<open>FAILED\<close>: the table is the old table followed by the failed record, and the
  pending record is not in it.
\<close>

theorem settleBet_gateway_failure_marks_failed:
  assumes "find (\<lambda>r. referenceId r = ''settle_'' @ b) (rows w) = None"
    and "fst (invokeContract svc ''settle'' [b, out, toString a] w) = Inl e"
  shows "(\<exists>e'. fst (settleBet svc b out a w) = Inl e') \<and>
     (healthy w \<longrightarrow>
        fst (settleBet svc b out a w) = Inl e \<and>
        rows (snd (settleBet svc b out a w)) =
          rows w @ [(pending_record b out a w)\<lparr>status := FAILED\<rparr>] \<and>
        pending_record b out a w \<notin> set (rows (snd (settleBet svc b out a w))))"
proof -
  have "pending_record b out a w \<notin> set (rows w)"
    using fresh_id_new [of "pending_record b out a w" "rows w"]
    by (auto simp: pending_record_def)
  moreover have "pending_record b out a w \<noteq> (pending_record b out a w)\<lparr>status := FAILED\<rparr>"
    by (simp add: pending_record_def create_def)
  ultimately show ?thesis
    using settleBet_gateway_throws [OF _ assms] settleBet_throws [OF assms(2,1)] by simp
qed

theorem settleBet_gateway_failure_marks_failed_witness:
  "find (\<lambda>r. referenceId r = ''settle_'' @ ''bet123'') (rows (empty_world\<lparr>rpc_faults := [True]\<rparr>)) = None \<and>
   fst (invokeContract demo_service ''settle'' [''bet123'', ''WIN'', toString 100]
          (empty_world\<lparr>rpc_faults := [True]\<rparr>)) = Inl RpcError \<and>
   healthy (empty_world\<lparr>rpc_faults := [True]\<rparr>) \<and>
   fst (settleBet demo_service ''bet123'' ''WIN'' 100 (empty_world\<lparr>rpc_faults := [True]\<rparr>)) = Inl RpcError \<and>
   rows (snd (settleBet demo_service ''bet123'' ''WIN'' 100 (empty_world\<lparr>rpc_faults := [True]\<rparr>))) =
     [submitted\<lparr>txHash := None, status := FAILED\<rparr>]"
proof -
  let ?w = "empty_world\<lparr>rpc_faults := [True]\<rparr>"
  have h1: "healthy ?w" by (simp add: healthy_def empty_world_def)
  have h2: "find (\<lambda>r. referenceId r = ''settle_'' @ ''bet123'') (rows ?w) = None"
    by (simp add: empty_world_def)
  have h3: "fst (invokeContract demo_service ''settle'' [''bet123'', ''WIN'', toString 100] ?w) =
      Inl RpcError"
    by (simp add: invokeContract_fst demo_service_def next_fault_def)
  have p: "pending_record ''bet123'' ''WIN'' 100 ?w = submitted\<lparr>txHash := None\<rparr>"
    by code_simp
  have e: "rows ?w = []" by (simp add: empty_world_def)
  show ?thesis
    using settleBet_gateway_failure_marks_failed [OF h2 h3] h1 h2 h3
    by (simp add: p e)
qed

text \<open>
  C3, as amended. Let a first call of \<^verbatim>\<open>settleBet\<close> for a bet without record return
  \<open>r1\<close>, and let that record be confirmed before a second call for the same bet starts
  (the lookup in the later world finds \<open>r1\<close> with status \<open>CONFIRMED\<close>). Then \<open>r1\<close>
  was returned in status \<open>PENDING\<close>; the second call returns the stored record, which
  is \<open>r1\<close> with status \<open>CONFIRMED\<close> and every other field the same, and leaves the
  table as it was; the first call entered the gateway exactly once and the second call
  not at all.
\<close>

theorem settleBet_again_after_confirmation:
  assumes "fst (settleBet svc b out a w) = Inr r1"
    and "find (\<lambda>r. referenceId r = ''settle_'' @ b) (rows w) = None"
    and "\<not> next_fault (store_faults w2)"
    and "find (\<lambda>r. referenceId r = ''settle_'' @ b) (rows w2) = Some (r1\<lparr>status := CONFIRMED\<rparr>)"
  shows "status r1 = PENDING \<and>
     fst (settleBet svc b out a w2) = Inr (r1\<lparr>status := CONFIRMED\<rparr>) \<and>
     rows (snd (settleBet svc b out a w2)) = rows w2 \<and>
     gateway_calls (trace (snd (settleBet svc b out a w))) = gateway_calls (trace w) + 1 \<and>
     gateway_calls (trace (snd (settleBet svc b out a w2))) = gateway_calls (trace w2)"
proof -
  have "settleBet svc b out a w2 =
      (Inr (r1\<lparr>status := CONFIRMED\<rparr>),
       w2\<lparr>store_faults := tl (store_faults w2),
          trace := trace w2 @ [Log Info, FindOne (''settle_'' @ b), Log Warn]\<rparr>)"
    using assms(3,4) by (intro settleBet_existing) simp_all
  then show ?thesis
    using settleBet_fresh_returns [OF assms(1,2)] by simp
qed

theorem settleBet_again_after_confirmation_witness:
  "fst (settleBet demo_service ''bet123'' ''WIN'' 100 empty_world) = Inr submitted \<and>
   find (\<lambda>r. referenceId r = ''settle_'' @ ''bet123'') (rows empty_world) = None \<and>
   \<not> next_fault (store_faults (snd (reconcile (snd (settleBet demo_service ''bet123'' ''WIN'' 100 empty_world))))) \<and>
   find (\<lambda>r. referenceId r = ''settle_'' @ ''bet123'')
     (rows (snd (reconcile (snd (settleBet demo_service ''bet123'' ''WIN'' 100 empty_world))))) =
     Some (submitted\<lparr>status := CONFIRMED\<rparr>) \<and>
   status submitted = PENDING \<and>
   fst (settleBet demo_service ''bet123'' ''WIN'' 100
         (snd (reconcile (snd (settleBet demo_service ''bet123'' ''WIN'' 100 empty_world))))) =
     Inr (submitted\<lparr>status := CONFIRMED\<rparr>) \<and>
   gateway_calls (trace (snd (settleBet demo_service ''bet123'' ''WIN'' 100
         (snd (reconcile (snd (settleBet demo_service ''bet123'' ''WIN'' 100 empty_world))))))) = 1"
proof -
  let ?w2 = "snd (reconcile (snd (settleBet demo_service ''bet123'' ''WIN'' 100 empty_world)))"
  have h2: "find (\<lambda>r. referenceId r = ''settle_'' @ ''bet123'') (rows empty_world) = None"
    by (simp add: empty_world_def)
  have h3: "\<not> next_fault (store_faults ?w2)"
    by code_simp
  have h4: "find (\<lambda>r. referenceId r = ''settle_'' @ ''bet123'') (rows ?w2) =
      Some (submitted\<lparr>status := CONFIRMED\<rparr>)"
    by (simp add: demo_between) (simp add: submitted_def)
  have g0: "gateway_calls (trace empty_world) = 0"
    by (simp add: empty_world_def)
  have g2: "gateway_calls (trace ?w2) =
      gateway_calls (trace (snd (settleBet demo_service ''bet123'' ''WIN'' 100 empty_world)))"
    by (simp add: reconcile_gateway)
  show ?thesis
    using settleBet_again_after_confirmation [OF demo_first h2 h3 h4] h2 h3 h4 g0 g2 demo_first
    by simp
qed

text \<open>
  C3, as stated, fails: the two calls do not return the same terminal record. In the
  run below (settle, sweep, settle again) the first call returns the record in status
  \<open>PENDING\<close>, which is not terminal, and the second returns it in status
  \<open>CONFIRMED\<close>.
\<close>

theorem settleBet_twice_counterexample:
  "fst (settleBet demo_service ''bet123'' ''WIN'' 100 empty_world) = Inr submitted \<and>
   status submitted = PENDING \<and>
   fst (settleBet demo_service ''bet123'' ''WIN'' 100
         (snd (reconcile (snd (settleBet demo_service ''bet123'' ''WIN'' 100 empty_world))))) =
     Inr (submitted\<lparr>status := CONFIRMED\<rparr>) \<and>
   fst (settleBet demo_service ''bet123'' ''WIN'' 100 empty_world) \<noteq>
   fst (settleBet demo_service ''bet123'' ''WIN'' 100
         (snd (reconcile (snd (settleBet demo_service ''bet123'' ''WIN'' 100 empty_world)))))"
  by (simp add: demo_first demo_second) (simp add: submitted_def)

text \<open>
  C2. The code at the failing input: the table holds one \<open>FAILED\<close> record for
  \<open>settle_bet123\<close> and \<^verbatim>\<open>settleBet('bet123', 'WIN', 100)\<close> is called. The failed record
  is not returned. When \<open>referenceId\<close> is not unique a second row is inserted, the
  gateway is entered once, and the new record comes back in status \<open>PENDING\<close>; when it
  is unique the insertion is refused and the call throws.
\<close>

theorem settleBet_failed_record_is_resubmitted:
  "find (\<lambda>r. referenceId r = ''settle_'' @ ''bet123'') (rows failed_world) =
     Some (submitted\<lparr>status := FAILED, txHash := None\<rparr>) \<and>
   fst (settleBet demo_service ''bet123'' ''WIN'' 100 failed_world) =
     Inr (submitted\<lparr>id' := Some 2\<rparr>) \<and>
   rows (snd (settleBet demo_service ''bet123'' ''WIN'' 100 failed_world)) =
     [submitted\<lparr>status := FAILED, txHash := None\<rparr>, submitted\<lparr>id' := Some 2\<rparr>] \<and>
   gateway_calls (trace (snd (settleBet demo_service ''bet123'' ''WIN'' 100 failed_world))) = 1 \<and>
   settleBet demo_service ''bet123'' ''WIN'' 100 (failed_world\<lparr>uniqueReferenceId := True\<rparr>) =
     (Inl StoreError,
      failed_world\<lparr>uniqueReferenceId := True,
        trace := [Log Info, FindOne ''settle_bet123'',
                  SaveFailed (submitted\<lparr>id' := None, txHash := None\<rparr>)]\<rparr>)"
  by code_simp

section \<open>Properties of \<^verbatim>\<open>reconcile\<close>\<close>

text \<open>
  C1, as amended. The sweep never asks the gateway anything: whatever the world, it
  enters the gateway method zero times, sends no RPC request and leaves the RPC fault
  schedule untouched. With a healthy store and a well-keyed table, every row that is
  \<open>PENDING\<close> with a non-empty hash is stored as \<open>CONFIRMED\<close> after the sweep.
\<close>

theorem reconcile_confirms_without_query:
  "(healthy w \<and> wf_rows (rows w) \<and> r \<in> set (rows w) \<and> status r = PENDING \<and> \<not> no_txHash r \<longrightarrow>
      fst (reconcile w) = Inr () \<and>
      row_of (id' r) (rows (snd (reconcile w))) = Some (r\<lparr>status := CONFIRMED\<rparr>)) \<and>
   gateway_calls (trace (snd (reconcile w))) = gateway_calls (trace w) \<and>
   rpc_requests (trace (snd (reconcile w))) = rpc_requests (trace w) \<and>
   rpc_faults (snd (reconcile w)) = rpc_faults w"
  using reconcile_row [of w r] reconcile_gateway [of w]
  by (simp add: sweep_def)

theorem reconcile_confirms_without_query_witness:
  "healthy unreachable_world \<and> wf_rows (rows unreachable_world) \<and>
   submitted \<in> set (rows unreachable_world) \<and> status submitted = PENDING \<and>
   \<not> no_txHash submitted \<and>
   fst (reconcile unreachable_world) = Inr () \<and>
   row_of (id' submitted) (rows (snd (reconcile unreachable_world))) =
     Some (submitted\<lparr>status := CONFIRMED\<rparr>) \<and>
   rpc_faults (snd (reconcile unreachable_world)) = [True]"
  using reconcile_confirms_without_query [of unreachable_world submitted] sweep_world_facts
  by (simp add: unreachable_world_def)

text \<open>
  C1, as stated, fails: with the RPC server unreachable (its next request would throw) the
  sweep still moves the pending record with a hash to \<open>CONFIRMED\<close>, and it does so
  without a single gateway call or RPC request.
\<close>

theorem reconcile_unreachable_gateway_counterexample:
  "next_fault (rpc_faults unreachable_world) \<and>
   row_of (Some 1) (rows unreachable_world) = Some submitted \<and>
   status submitted = PENDING \<and> txHash submitted = Some ''mock_tx_hash_42'' \<and>
   row_of (Some 1) (rows (snd (reconcile unreachable_world))) =
     Some (submitted\<lparr>status := CONFIRMED\<rparr>) \<and>
   gateway_calls (trace (snd (reconcile unreachable_world))) = 0 \<and>
   rpc_requests (trace (snd (reconcile unreachable_world))) = 0"
  by code_simp

text \<open>
  C4. With a healthy store and a well-keyed table, every row that is \<open>PENDING\<close>
  without a hash is stored as \<open>FAILED\<close> after the sweep. And whatever the store does,
  the sweep never issues a write, accepted or refused, that marks a record without
  hash \<open>CONFIRMED\<close>.
\<close>

theorem reconcile_fails_record_without_hash:
  "(healthy w \<and> wf_rows (rows w) \<and> r \<in> set (rows w) \<and> status r = PENDING \<and> no_txHash r \<longrightarrow>
      fst (reconcile w) = Inr () \<and>
      row_of (id' r) (rows (snd (reconcile w))) = Some (r\<lparr>status := FAILED\<rparr>)) \<and>
   hashless_confirms (trace (snd (reconcile w))) = hashless_confirms (trace w)"
  using reconcile_row [of w r] reconcile_hashless [of w]
  by (simp add: sweep_def)

theorem reconcile_fails_record_without_hash_witness:
  "healthy unreachable_world \<and> wf_rows (rows unreachable_world) \<and>
   crashed \<in> set (rows unreachable_world) \<and> status crashed = PENDING \<and> no_txHash crashed \<and>
   fst (reconcile unreachable_world) = Inr () \<and>
   row_of (id' crashed) (rows (snd (reconcile unreachable_world))) =
     Some (crashed\<lparr>status := FAILED\<rparr>) \<and>
   hashless_confirms (trace (snd (reconcile unreachable_world))) = 0"
  using reconcile_fails_record_without_hash [of unreachable_world crashed] sweep_world_facts
  by (simp add: unreachable_world_def sweep_world_def world_with_def empty_world_def)

text \<open>
  C9. The code at the failing input: two pending records, the first without hash, and a
  store that answers the query but refuses the next write. The sweep throws on the
  refused write of the first record and the second record is never visited: it stays
  \<open>PENDING\<close> and nothing is written for it. For contrast, when the refused write
  belongs to a record with a hash, the error is caught and the next record is confirmed.
\<close>

theorem reconcile_aborts_when_failed_mark_is_refused:
  "reconcile ((world_with [crashed, submitted])\<lparr>store_faults := [False, True]\<rparr>) =
     (Inl StoreError,
      (world_with [crashed, submitted])
        \<lparr>trace := [Log Info, Find PENDING, Log Warn, SaveFailed (crashed\<lparr>status := FAILED\<rparr>)]\<rparr>) \<and>
   reconcile ((world_with [submitted, submitted_later])\<lparr>store_faults := [False, True]\<rparr>) =
     (Inr (),
      (world_with [submitted, submitted_later\<lparr>status := CONFIRMED\<rparr>])
        \<lparr>trace := [Log Info, Find PENDING, Log Info, SaveFailed (submitted\<lparr>status := CONFIRMED\<rparr>),
                  Log Error, Log Info, Saved (submitted_later\<lparr>status := CONFIRMED\<rparr>), Log Info]\<rparr>)"
  by code_simp

section \<open>The leaderboard invariant\<close>

text \<open>
  C8. For every user and every sequence of \<open>BetSettled\<close> events applied to the
  freshly created row of that user, the resulting row has
  \<open>totalBets = betsWon + betsLost\<close>, its accuracy is
  \<open>round2 (betsWon / totalBets * 100)\<close> when \<open>totalBets > 0\<close> and \<open>0\<close> otherwise,
  and \<open>winningStreak \<le> highestWinningStreak\<close>. Every prefix of a sequence is a
  sequence, so this holds after each event.
\<close>

theorem settled_stats_invariant:
  "totalBets (settled u evs) = betsWon (settled u evs) + betsLost (settled u evs) \<and>
   bettingAccuracy (settled u evs) =
     (if totalBets (settled u evs) > 0
      then round2 (of_nat (betsWon (settled u evs)) / of_nat (totalBets (settled u evs)) * 100)
      else 0) \<and>
   winningStreak (settled u evs) \<le> highestWinningStreak (settled u evs)"
proof (cases evs rule: rev_cases)
  case Nil
  then show ?thesis by (simp add: settled_def newStats_def)
next
  case (snoc evs' ev)
  then show ?thesis
    using settled_counts [of u evs'] handleBetSettled_invariant [of "settled u evs'" ev]
    by (simp add: settled_snoc)
qed

section \<open>The gateway is a mock\<close>

text \<open>
  C10. \<^verbatim>\<open>invokeContract\<close> never submits a transaction to the chain, whatever its
  arguments and the state of the world, and so neither do steps 2 to 4 of
  \<^verbatim>\<open>settleBet\<close>. When the account lookup succeeds (the client is initialised and the RPC
  request does not fail) the only request is that lookup, and the result is the string
  \<^verbatim>\<open>mock_tx_hash_\<close> followed by the clock reading. Every settlement whose steps 2 to 4
  return normally carries such a mock hash as its \<open>txHash\<close>.
\<close>

theorem invokeContract_returns_mock_hash:
  "submissions (trace (snd (invokeContract svc f args w))) = submissions (trace w) \<and>
   submissions (trace (snd (settleBet_submit svc ref b out a w))) = submissions (trace w) \<and>
   (server svc = Some url \<and> adminKeypair svc = Some pk \<and> \<not> next_fault (rpc_faults w) \<longrightarrow>
      invokeContract svc f args w =
        (Inr (''mock_tx_hash_'' @ toString (now w)),
         w\<lparr>rpc_faults := tl (rpc_faults w),
           trace := trace w @ [InvokeContract f args, Log Info, GetAccount pk, Log Info]\<rparr>)) \<and>
   (fst (settleBet_submit svc ref b out a w) = Inr r \<longrightarrow>
      txHash r = Some (''mock_tx_hash_'' @ toString (now w)))"
  using invokeContract_submissions [of svc f args w]
    settleBet_submit_submissions [of svc ref b out a w]
    invokeContract_ok [of svc url pk w f args]
    settleBet_submit_hash [of svc ref b out a w r]
  by blast

theorem invokeContract_returns_mock_hash_witness:
  "server demo_service = Some ''https://mock-rpc'' \<and>
   adminKeypair demo_service = Some ''MOCK_PUBLIC_KEY'' \<and>
   \<not> next_fault (rpc_faults empty_world) \<and>
   fst (invokeContract demo_service ''settle'' [''bet123'', ''WIN'', ''100''] empty_world) =
     Inr ''mock_tx_hash_42'' \<and>
   fst (settleBet_submit demo_service ''settle_bet123'' ''bet123'' ''WIN'' 100 empty_world) =
     Inr \<lparr>id' = Some 1, referenceId = ''settle_bet123'', betId = ''bet123'', outcome = ''WIN'',
          amount = 100, status = PENDING, txHash = Some ''mock_tx_hash_42''\<rparr> \<and>
   txHash \<lparr>id' = Some 1, referenceId = ''settle_bet123'', betId = ''bet123'', outcome = ''WIN'',
          amount = 100, status = PENDING, txHash = Some ''mock_tx_hash_42''\<rparr> =
     Some (''mock_tx_hash_'' @ toString (now empty_world))"
proof -
  have h: "server demo_service = Some ''https://mock-rpc''"
    "adminKeypair demo_service = Some ''MOCK_PUBLIC_KEY''"
    "\<not> next_fault (rpc_faults empty_world)"
    by (simp_all add: demo_service_def empty_world_def next_fault_def)
  have t: "toString (now empty_world) = ''42''"
    by code_simp
  show ?thesis
    using h t demo_submit
      invokeContract_returns_mock_hash [of demo_service "''settle''" "[''bet123'', ''WIN'', ''100'']"
        empty_world "''settle_bet123''" "''bet123''" "''WIN''" 100 "''https://mock-rpc''"
        "''MOCK_PUBLIC_KEY''"
        "\<lparr>id' = Some 1, referenceId = ''settle_bet123'', betId = ''bet123'', outcome = ''WIN'',
          amount = 100, status = PENDING, txHash = Some ''mock_tx_hash_42''\<rparr>"]
    by simp
qed

end
